theory Spec2Isabelle
  imports Complex_Main "HOL-Library.AList" "HOL-Library.Multiset"
begin

section \<open>Numeric arrays\<close>

text \<open>
  The grid converter of \<^verbatim>\<open>1-08_grid_converter_dask.ipynb\<close> computes on CuPy arrays
  obtained from two columns of a dataframe partition, mixed with Python scalars. An
  operand is a scalar or a one-dimensional array; a binary operation broadcasts a scalar
  over an array, works element by element on two arrays of the same length, and fails
  on two arrays of different lengths. The failure is a value, \<open>ShapeError\<close>, which
  every later operation passes on. Floating-point numbers are idealised as reals:
  rounding, infinities and NaN are not part of this model.
\<close>

datatype ndarray = Scalar real | Array "real list" | ShapeError

fun broadcast :: "(real \<Rightarrow> real \<Rightarrow> real) \<Rightarrow> ndarray \<Rightarrow> ndarray \<Rightarrow> ndarray" where
  "broadcast f (Scalar x) (Scalar y) = Scalar (f x y)"
| "broadcast f (Scalar x) (Array ys) = Array (map (f x) ys)"
| "broadcast f (Array xs) (Scalar y) = Array (map (\<lambda>x. f x y) xs)"
| "broadcast f (Array xs) (Array ys) =
     (if length xs = length ys then Array (map2 f xs ys) else ShapeError)"
| "broadcast f _ _ = ShapeError"

fun elementwise :: "(real \<Rightarrow> real) \<Rightarrow> ndarray \<Rightarrow> ndarray" where
  "elementwise f (Scalar x) = Scalar (f x)"
| "elementwise f (Array xs) = Array (map f xs)"
| "elementwise f ShapeError = ShapeError"

instantiation ndarray :: "{plus, minus, times, inverse, one}"
begin
definition plus_ndarray :: "ndarray \<Rightarrow> ndarray \<Rightarrow> ndarray" where
  "plus_ndarray = broadcast (+)"
definition minus_ndarray :: "ndarray \<Rightarrow> ndarray \<Rightarrow> ndarray" where
  "minus_ndarray = broadcast (-)"
definition times_ndarray :: "ndarray \<Rightarrow> ndarray \<Rightarrow> ndarray" where
  "times_ndarray = broadcast (*)"
definition divide_ndarray :: "ndarray \<Rightarrow> ndarray \<Rightarrow> ndarray" where
  "divide_ndarray = broadcast (/)"
definition inverse_ndarray :: "ndarray \<Rightarrow> ndarray" where
  "inverse_ndarray = elementwise inverse"
definition one_ndarray :: "ndarray" where
  "one_ndarray = Scalar 1"
instance ..
end

text \<open>\<open>x ** k\<close> for an integer literal \<open>k\<close>, and \<open>x ** r\<close> for a float literal \<open>r\<close>.\<close>

definition ipow :: "ndarray \<Rightarrow> nat \<Rightarrow> ndarray" where
  "ipow x k = elementwise (\<lambda>v. v ^ k) x"

definition fpow :: "ndarray \<Rightarrow> real \<Rightarrow> ndarray" where
  "fpow x r = elementwise (\<lambda>v. v powr r) x"

definition cp_sin :: "ndarray \<Rightarrow> ndarray" where
  "cp_sin = elementwise sin"

definition cp_cos :: "ndarray \<Rightarrow> ndarray" where
  "cp_cos = elementwise cos"

definition cp_tan :: "ndarray \<Rightarrow> ndarray" where
  "cp_tan = elementwise tan"

section \<open>The grid conversion on arrays\<close>

text \<open>
  Part 3 of \<^verbatim>\<open>latlong2osgbgrid_dask\<close>: the CuPy code between the conversion of the two
  columns to arrays and the two column assignments, line by line. The Python scalars
  \<open>a\<close>, \<open>b\<close>, \<open>e2\<close>, \<open>N0\<close>, \<open>E0\<close>, \<open>F0\<close>, \<open>phi0\<close>, \<open>lambda0\<close> and \<open>n\<close> are reals; they
  enter array expressions through \<open>Scalar\<close>.
\<close>

definition grid_arrays :: "ndarray \<Rightarrow> ndarray \<Rightarrow> bool \<Rightarrow> ndarray \<times> ndarray" where
  "grid_arrays lat_in long_in input_degrees =
    (let lat = (if input_degrees then lat_in * Scalar pi / Scalar 180 else lat_in);
         long = (if input_degrees then long_in * Scalar pi / Scalar 180 else long_in);
         a = 6377563.396;
         b = 6356256.909;
         e2 = (a\<^sup>2 - b\<^sup>2) / a\<^sup>2;
         N0 = - 100000;
         E0 = 400000;
         F0 = 0.9996012717;
         phi0 = 49 * pi / 180;
         lambda0 = - 2 * pi / 180;
         sinlat = cp_sin lat;
         coslat = cp_cos lat;
         tanlat = cp_tan lat;
         latdiff = lat - Scalar phi0;
         longdiff = long - Scalar lambda0;
         n = (a - b) / (a + b);
         nu = Scalar a * Scalar F0 * fpow (Scalar 1 - Scalar e2 * ipow sinlat 2) (- 0.5);
         rho = Scalar a * Scalar F0 * Scalar (1 - e2)
                 * fpow (Scalar 1 - Scalar e2 * ipow sinlat 2) (- 1.5);
         eta2 = nu / rho - Scalar 1;
         M = Scalar b * Scalar F0 *
               (Scalar (1 + n + 5 / 4 * (n\<^sup>2 + n ^ 3)) * latdiff
                - Scalar (3 * (n + n\<^sup>2) + 21 / 8 * n ^ 3) * cp_sin latdiff
                    * cp_cos (lat + Scalar phi0)
                + Scalar (15 / 8 * (n\<^sup>2 + n ^ 3)) * cp_sin (Scalar 2 * latdiff)
                    * cp_cos (Scalar 2 * (lat + Scalar phi0))
                - Scalar (35 / 24 * n ^ 3) * cp_sin (Scalar 3 * latdiff)
                    * cp_cos (Scalar 3 * (lat + Scalar phi0)));
         I = M + Scalar N0;
         II = nu / Scalar 2 * sinlat * coslat;
         III = nu / Scalar 24 * sinlat * ipow coslat 3
                 * (Scalar 5 - ipow tanlat 2 + Scalar 9 * eta2);
         IIIA = nu / Scalar 720 * sinlat * ipow coslat 5
                 * (Scalar 61 - Scalar 58 * ipow tanlat 2 + ipow tanlat 4);
         IV = nu * coslat;
         V = nu / Scalar 6 * ipow coslat 3 * (nu / rho - ipow (cp_tan lat) 2);
         VI = nu / Scalar 120 * ipow coslat 5
                 * (Scalar 5 - Scalar 18 * ipow tanlat 2 + ipow tanlat 4 + Scalar 14 * eta2
                    - Scalar 58 * ipow tanlat 2 * eta2);
         northing = I + II * ipow longdiff 2 + III * ipow longdiff 4 + IIIA * ipow longdiff 6;
         easting = Scalar E0 + IV * longdiff + V * ipow longdiff 3 + VI * ipow longdiff 5
     in (northing, easting))"

section \<open>The projection of the specification\<close>

text \<open>
  The specification's \<open>ProjectionParameters\<close> and its steps 1 to 7 for one point, with
  the six correction terms of the Ordnance Survey's Transverse Mercator formulae. These
  definitions follow the specification's words; they are compared with the code below.
\<close>

record ProjectionParameters =
  semiMajorAxis :: real
  semiMinorAxis :: real
  falseNorthing :: real
  falseEasting :: real
  scaleFactor :: real
  originLatitude :: real
  originLongitude :: real

definition OSGB36 :: ProjectionParameters where
  "OSGB36 = \<lparr> semiMajorAxis = 6377563.396, semiMinorAxis = 6356256.909,
              falseNorthing = - 100000, falseEasting = 400000,
              scaleFactor = 0.9996012717,
              originLatitude = 49 * pi / 180, originLongitude = - 2 * pi / 180 \<rparr>"

definition to_radians :: "bool \<Rightarrow> real \<Rightarrow> real" where
  "to_radians inputIsDegrees x = (if inputIsDegrees then x * pi / 180 else x)"

definition spec_e2 :: "ProjectionParameters \<Rightarrow> real" where
  "spec_e2 p = ((semiMajorAxis p)\<^sup>2 - (semiMinorAxis p)\<^sup>2) / (semiMajorAxis p)\<^sup>2"

definition spec_n :: "ProjectionParameters \<Rightarrow> real" where
  "spec_n p = (semiMajorAxis p - semiMinorAxis p) / (semiMajorAxis p + semiMinorAxis p)"

definition spec_nu :: "ProjectionParameters \<Rightarrow> real \<Rightarrow> real" where
  "spec_nu p lat =
     semiMajorAxis p * scaleFactor p * (1 - spec_e2 p * (sin lat)\<^sup>2) powr (- 1 / 2)"

definition spec_rho :: "ProjectionParameters \<Rightarrow> real \<Rightarrow> real" where
  "spec_rho p lat =
     semiMajorAxis p * scaleFactor p * (1 - spec_e2 p)
       * (1 - spec_e2 p * (sin lat)\<^sup>2) powr (- 3 / 2)"

definition spec_eta2 :: "ProjectionParameters \<Rightarrow> real \<Rightarrow> real" where
  "spec_eta2 p lat = spec_nu p lat / spec_rho p lat - 1"

definition spec_M :: "ProjectionParameters \<Rightarrow> real \<Rightarrow> real" where
  "spec_M p lat =
     (let n = spec_n p; phi0 = originLatitude p; latdiff = lat - phi0 in
      semiMinorAxis p * scaleFactor p *
        ((1 + n + 5 / 4 * n\<^sup>2 + 5 / 4 * n ^ 3) * latdiff
         - (3 * n + 3 * n\<^sup>2 + 21 / 8 * n ^ 3) * sin latdiff * cos (lat + phi0)
         + (15 / 8 * n\<^sup>2 + 15 / 8 * n ^ 3) * sin (2 * latdiff) * cos (2 * (lat + phi0))
         - 35 / 24 * n ^ 3 * sin (3 * latdiff) * cos (3 * (lat + phi0))))"

definition term_I :: "ProjectionParameters \<Rightarrow> real \<Rightarrow> real" where
  "term_I p lat = spec_M p lat + falseNorthing p"

definition term_II :: "ProjectionParameters \<Rightarrow> real \<Rightarrow> real" where
  "term_II p lat = spec_nu p lat / 2 * sin lat * cos lat"

definition term_III :: "ProjectionParameters \<Rightarrow> real \<Rightarrow> real" where
  "term_III p lat =
     spec_nu p lat / 24 * sin lat * (cos lat) ^ 3 * (5 - (tan lat)\<^sup>2 + 9 * spec_eta2 p lat)"

definition term_IIIA :: "ProjectionParameters \<Rightarrow> real \<Rightarrow> real" where
  "term_IIIA p lat =
     spec_nu p lat / 720 * sin lat * (cos lat) ^ 5 * (61 - 58 * (tan lat)\<^sup>2 + (tan lat) ^ 4)"

definition term_IV :: "ProjectionParameters \<Rightarrow> real \<Rightarrow> real" where
  "term_IV p lat = spec_nu p lat * cos lat"

definition term_V :: "ProjectionParameters \<Rightarrow> real \<Rightarrow> real" where
  "term_V p lat =
     spec_nu p lat / 6 * (cos lat) ^ 3 * (spec_nu p lat / spec_rho p lat - (tan lat)\<^sup>2)"

definition term_VI :: "ProjectionParameters \<Rightarrow> real \<Rightarrow> real" where
  "term_VI p lat =
     spec_nu p lat / 120 * (cos lat) ^ 5
       * (5 - 18 * (tan lat)\<^sup>2 + (tan lat) ^ 4 + 14 * spec_eta2 p lat
          - 58 * (tan lat)\<^sup>2 * spec_eta2 p lat)"

definition spec_northing :: "ProjectionParameters \<Rightarrow> real \<Rightarrow> real \<Rightarrow> real" where
  "spec_northing p lat long =
     (let longdiff = long - originLongitude p in
      term_I p lat + term_II p lat * longdiff\<^sup>2 + term_III p lat * longdiff ^ 4
        + term_IIIA p lat * longdiff ^ 6)"

definition spec_easting :: "ProjectionParameters \<Rightarrow> real \<Rightarrow> real \<Rightarrow> real" where
  "spec_easting p lat long =
     (let longdiff = long - originLongitude p in
      falseEasting p + term_IV p lat * longdiff + term_V p lat * longdiff ^ 3
        + term_VI p lat * longdiff ^ 5)"

definition project_point :: "ProjectionParameters \<Rightarrow> bool \<Rightarrow> real \<times> real \<Rightarrow> real \<times> real" where
  "project_point p inputIsDegrees pt =
     (let lat = to_radians inputIsDegrees (fst pt);
          long = to_radians inputIsDegrees (snd pt)
      in (spec_northing p lat long, spec_easting p lat long))"

section \<open>Dataframe partitions\<close>

text \<open>
  A partition is a cuDF dataframe: an ordered sequence of named, typed columns of one
  common length. The population data has float columns (age, lat, long) and string
  columns (sex, county, name); integer columns hold row ids and cluster labels. A
  float column some of whose entries are missing is a \<open>NullableCol\<close>, with \<open>None\<close> for a
  missing entry (cuDF prints it as \<open><NA>\<close>, pandas as \<open>NaN\<close>).

  A partition is first modelled without its row ids, with positional column
  assignment: this is the dataframe whose row ids are the default \<open>0..n-1\<close>, which the
  CSV loader gives every partition. The dataframe with arbitrary row ids, on which the
  column assignment aligns, follows in the section on row ids, where the two are
  related.
\<close>

datatype column =
  FloatCol "real list" | IntCol "int list" | StrCol "string list"
  | NullableCol "real option list"

type_synonym partition = "(string \<times> column) list"

datatype py_error = KeyError string | TypeError | ValueError

fun col_len :: "column \<Rightarrow> nat" where
  "col_len (FloatCol xs) = length xs"
| "col_len (IntCol xs) = length xs"
| "col_len (StrCol xs) = length xs"
| "col_len (NullableCol xs) = length xs"

fun nrows :: "partition \<Rightarrow> nat" where
  "nrows [] = 0"
| "nrows ((name, c) # df) = col_len c"

definition wf_partition :: "partition \<Rightarrow> bool" where
  "wf_partition df \<longleftrightarrow>
     distinct (map fst df) \<and> list_all (\<lambda>(name, c). col_len c = nrows df) df"

text \<open>\<open>part_df[name]\<close>: the column, or \<open>KeyError\<close>.\<close>

definition getitem :: "partition \<Rightarrow> string \<Rightarrow> py_error + column" where
  "getitem df name = (case map_of df name of None \<Rightarrow> Inl (KeyError name) | Some c \<Rightarrow> Inr c)"

text \<open>
  \<open>cp.asarray(column)\<close>: a numeric column becomes an array; a string column, or a column
  with missing entries, has none.
\<close>

fun cp_asarray :: "column \<Rightarrow> py_error + ndarray" where
  "cp_asarray (FloatCol xs) = Inr (Array xs)"
| "cp_asarray (IntCol xs) = Inr (Array (map real_of_int xs))"
| "cp_asarray (StrCol xs) = Inl TypeError"
| "cp_asarray (NullableCol xs) = Inl ValueError"

text \<open>\<open>cudf.Series(array)\<close>; an operation that failed on its shapes has raised before.\<close>

fun cudf_Series :: "ndarray \<Rightarrow> py_error + column" where
  "cudf_Series (Array xs) = Inr (FloatCol xs)"
| "cudf_Series (Scalar x) = Inl TypeError"
| "cudf_Series ShapeError = Inl ValueError"

text \<open>
  \<open>part_df[name] = series\<close>: an existing column of that name is replaced where it
  stands, a new one is added on the right (\<open>AList.update\<close> does both). A series of
  another length than the dataframe's columns is refused.
\<close>

definition setitem :: "partition \<Rightarrow> string \<Rightarrow> column \<Rightarrow> py_error + partition" where
  "setitem df name c =
     (if df \<noteq> [] \<and> col_len c \<noteq> nrows df then Inl ValueError
      else Inr (AList.update name c df))"

section \<open>The partition transform\<close>

definition latlong2osgbgrid_dask ::
  "partition \<Rightarrow> string \<Rightarrow> string \<Rightarrow> bool \<Rightarrow> py_error + partition" where
  "latlong2osgbgrid_dask part_df lat_col long_col input_degrees =
     (case getitem part_df lat_col of Inl e \<Rightarrow> Inl e | Inr lat_column \<Rightarrow>
      case cp_asarray lat_column of Inl e \<Rightarrow> Inl e | Inr lat \<Rightarrow>
      case getitem part_df long_col of Inl e \<Rightarrow> Inl e | Inr long_column \<Rightarrow>
      case cp_asarray long_column of Inl e \<Rightarrow> Inl e | Inr long \<Rightarrow>
      let (northing, easting) = grid_arrays lat long input_degrees in
      case cudf_Series northing of Inl e \<Rightarrow> Inl e | Inr northing_series \<Rightarrow>
      case setitem part_df ''northing'' northing_series of Inl e \<Rightarrow> Inl e | Inr df1 \<Rightarrow>
      case cudf_Series easting of Inl e \<Rightarrow> Inl e | Inr easting_series \<Rightarrow>
      setitem df1 ''easting'' easting_series)"

subsection \<open>Rows of a partition\<close>

datatype cell = Num real | Id int | Str string | Null

fun cell_at :: "column \<Rightarrow> nat \<Rightarrow> cell" where
  "cell_at (FloatCol xs) i = Num (xs ! i)"
| "cell_at (IntCol xs) i = Id (xs ! i)"
| "cell_at (StrCol xs) i = Str (xs ! i)"
| "cell_at (NullableCol xs) i = (case xs ! i of None \<Rightarrow> Null | Some x \<Rightarrow> Num x)"

type_synonym row = "(string \<times> cell) list"

definition row_at :: "partition \<Rightarrow> nat \<Rightarrow> row" where
  "row_at df i = map (\<lambda>(name, c). (name, cell_at c i)) df"

definition rows :: "partition \<Rightarrow> row list" where
  "rows df = map (row_at df) [0..<nrows df]"

text \<open>
  The specification's \<open>project\<close> on a sequence of points, and the same on one row of a
  table: the row's latitude and longitude cells give its northing and easting cells.
\<close>

definition project :: "ProjectionParameters \<Rightarrow> bool \<Rightarrow> (real \<times> real) list \<Rightarrow> (real \<times> real) list" where
  "project p inputIsDegrees points = map (project_point p inputIsDegrees) points"

definition project_row :: "string \<Rightarrow> string \<Rightarrow> bool \<Rightarrow> row \<Rightarrow> row" where
  "project_row lat_col long_col inputIsDegrees r =
     (case (map_of r lat_col, map_of r long_col) of
        (Some (Num lat), Some (Num long)) \<Rightarrow>
          AList.update ''easting''
            (Num (snd (project_point OSGB36 inputIsDegrees (lat, long))))
            (AList.update ''northing''
               (Num (fst (project_point OSGB36 inputIsDegrees (lat, long)))) r)
      | _ \<Rightarrow> r)"

text \<open>
  The columns of a partition other than \<open>northing\<close> and \<open>easting\<close>, in their order; and
  whether a column of a given name is a float column.
\<close>

definition other_columns :: "partition \<Rightarrow> partition" where
  "other_columns df = filter (\<lambda>(name, c). name \<noteq> ''northing'' \<and> name \<noteq> ''easting'') df"

fun has_float_column :: "partition \<Rightarrow> string \<Rightarrow> bool" where
  "has_float_column df name =
     (case map_of df name of Some (FloatCol xs) \<Rightarrow> True | _ \<Rightarrow> False)"

section \<open>Row ids\<close>

text \<open>
  A cuDF dataframe has a row id for every row; the default ids are \<open>0..n-1\<close>. Dask's CSV
  reader gives every partition the default ids; a selection (as in the second notebook)
  or a split of an existing dataframe keeps the ids the rows had.
\<close>

record dataframe =
  row_index :: "nat list"
  frame :: partition

definition wf_dataframe :: "dataframe \<Rightarrow> bool" where
  "wf_dataframe df \<longleftrightarrow>
     wf_partition (frame df)
     \<and> list_all (\<lambda>(name, c). col_len c = length (row_index df)) (frame df)"

definition default_ids :: "dataframe \<Rightarrow> bool" where
  "default_ids df \<longleftrightarrow> row_index df = [0..<length (row_index df)]"

text \<open>
  \<open>part_df[name] = cudf.Series(array)\<close>. The series has the row ids \<open>0..m-1\<close> of its own,
  and the assignment aligns it on the dataframe's row ids: the row with id \<open>l\<close> gets the
  series' entry with id \<open>l\<close>, and a missing entry when the series has no such id. The
  column is replaced where it stands, or added on the right.
\<close>

definition align :: "nat list \<Rightarrow> real list \<Rightarrow> real option list" where
  "align ids values = map (\<lambda>l. if l < length values then Some (values ! l) else None) ids"

definition aligned_column :: "real option list \<Rightarrow> column" where
  "aligned_column xs = (case those xs of Some ys \<Rightarrow> FloatCol ys | None \<Rightarrow> NullableCol xs)"

fun setitem_series :: "dataframe \<Rightarrow> string \<Rightarrow> column \<Rightarrow> py_error + dataframe" where
  "setitem_series df name (FloatCol values) =
     Inr (df\<lparr>frame :=
            AList.update name (aligned_column (align (row_index df) values)) (frame df)\<rparr>)"
| "setitem_series df name c = Inl TypeError"

text \<open>
  \<^verbatim>\<open>latlong2osgbgrid_dask\<close> on a dataframe with its row ids. The code is the same; only
  the two column assignments see the ids.
\<close>

definition latlong2osgbgrid_dask_ids ::
  "dataframe \<Rightarrow> string \<Rightarrow> string \<Rightarrow> bool \<Rightarrow> py_error + dataframe" where
  "latlong2osgbgrid_dask_ids part_df lat_col long_col input_degrees =
     (case getitem (frame part_df) lat_col of Inl e \<Rightarrow> Inl e | Inr lat_column \<Rightarrow>
      case cp_asarray lat_column of Inl e \<Rightarrow> Inl e | Inr lat \<Rightarrow>
      case getitem (frame part_df) long_col of Inl e \<Rightarrow> Inl e | Inr long_column \<Rightarrow>
      case cp_asarray long_column of Inl e \<Rightarrow> Inl e | Inr long \<Rightarrow>
      let (northing, easting) = grid_arrays lat long input_degrees in
      case cudf_Series northing of Inl e \<Rightarrow> Inl e | Inr northing_series \<Rightarrow>
      case setitem_series part_df ''northing'' northing_series of
        Inl e \<Rightarrow> Inl e | Inr df1 \<Rightarrow>
      case cudf_Series easting of Inl e \<Rightarrow> Inl e | Inr easting_series \<Rightarrow>
      setitem_series df1 ''easting'' easting_series)"

definition grid_converter :: "dataframe \<Rightarrow> py_error + dataframe" where
  "grid_converter part_df = latlong2osgbgrid_dask_ids part_df ''lat'' ''long'' True"

text \<open>
  \<open>ddf.map_partitions(latlong2osgbgrid_dask)\<close>, with the function's default arguments
  \<open>lat_col='lat'\<close>, \<open>long_col='long'\<close>, \<open>input_degrees=True\<close>. No \<open>meta\<close> is given, so
  Dask first calls the function on a stand-in dataframe with the partitions' columns
  (two rows of dummy values, default row ids) to learn the columns of the result; if
  that call raises, \<open>map_partitions\<close> raises \<open>ValueError\<close> (metadata inference failed).
  Then the function is applied to every partition, in order; the first partition that
  raises fails the computation.
\<close>

fun stand_in :: "column \<Rightarrow> column" where
  "stand_in (FloatCol xs) = FloatCol [1, 1]"
| "stand_in (IntCol xs) = IntCol [1, 1]"
| "stand_in (StrCol xs) = StrCol [''foo'', ''foo'']"
| "stand_in (NullableCol xs) = FloatCol [1, 1]"

definition meta_nonempty :: "dataframe \<Rightarrow> dataframe" where
  "meta_nonempty df =
     \<lparr> row_index = [0, 1], frame = map (\<lambda>(name, c). (name, stand_in c)) (frame df) \<rparr>"

fun apply_partitions ::
  "(dataframe \<Rightarrow> py_error + dataframe) \<Rightarrow> dataframe list \<Rightarrow> py_error + dataframe list" where
  "apply_partitions f [] = Inr []"
| "apply_partitions f (part # parts) =
     (case f part of Inl e \<Rightarrow> Inl e | Inr out \<Rightarrow>
      case apply_partitions f parts of Inl e \<Rightarrow> Inl e | Inr outs \<Rightarrow> Inr (out # outs))"

fun map_partitions ::
  "(dataframe \<Rightarrow> py_error + dataframe) \<Rightarrow> dataframe list \<Rightarrow> py_error + dataframe list" where
  "map_partitions f [] = Inr []"
| "map_partitions f (part # parts) =
     (case f (meta_nonempty part) of Inl e \<Rightarrow> Inl ValueError
      | Inr meta \<Rightarrow> apply_partitions f (part # parts))"

text \<open>
  The rows of a dataframe and of a list of partitions (the cells, without the row ids);
  the multiset of output rows of a mapped computation; and the partitions of the
  population dataset as the CSV reader yields them: well-formed, with default row ids
  and float columns \<open>lat\<close> and \<open>long\<close>.
\<close>

definition frame_rows :: "dataframe \<Rightarrow> row list" where
  "frame_rows df = rows (frame df)"

definition dataset_rows :: "dataframe list \<Rightarrow> row list" where
  "dataset_rows parts = concat (map frame_rows parts)"

definition mapped_rows ::
  "(dataframe \<Rightarrow> py_error + dataframe) \<Rightarrow> dataframe list \<Rightarrow> py_error + row multiset" where
  "mapped_rows f parts =
     (case map_partitions f parts of Inl e \<Rightarrow> Inl e | Inr outs \<Rightarrow> Inr (mset (dataset_rows outs)))"

definition geodetic_frame :: "dataframe \<Rightarrow> bool" where
  "geodetic_frame df \<longleftrightarrow>
     wf_dataframe df \<and> default_ids df
     \<and> has_float_column (frame df) ''lat'' \<and> has_float_column (frame df) ''long''"

section \<open>Selecting the infected rows\<close>

text \<open>
  In \<^verbatim>\<open>2-04_DBSCAN.ipynb\<close> the rows of \<open>gdf\<close> whose \<open>infected\<close> flag is 1 are selected
  with a boolean mask. A selection keeps the row ids of the rows it keeps, and \<open>reset_index\<close> returns a new dataframe with the ids \<open>0..m-1\<close>; it
  does not change the dataframe it is called on.
\<close>

text \<open>\<open>column == value\<close>, element by element.\<close>

fun eq_scalar :: "column \<Rightarrow> real \<Rightarrow> py_error + bool list" where
  "eq_scalar (FloatCol xs) v = Inr (map (\<lambda>x. x = v) xs)"
| "eq_scalar (IntCol xs) v = Inr (map (\<lambda>x. real_of_int x = v) xs)"
| "eq_scalar (StrCol xs) v = Inl TypeError"
| "eq_scalar (NullableCol xs) v = Inr (map (\<lambda>x. x = Some v) xs)"

definition select_mask :: "'a list \<Rightarrow> bool list \<Rightarrow> 'a list" where
  "select_mask xs flags = map fst (filter snd (zip xs flags))"

fun select_column :: "column \<Rightarrow> bool list \<Rightarrow> column" where
  "select_column (FloatCol xs) flags = FloatCol (select_mask xs flags)"
| "select_column (IntCol xs) flags = IntCol (select_mask xs flags)"
| "select_column (StrCol xs) flags = StrCol (select_mask xs flags)"
| "select_column (NullableCol xs) flags = NullableCol (select_mask xs flags)"

text \<open>\<open>gdf[mask]\<close> and \<open>gdf.loc[mask]\<close>: the rows where the mask holds, with their row ids.\<close>

definition getitem_mask :: "dataframe \<Rightarrow> bool list \<Rightarrow> py_error + dataframe" where
  "getitem_mask df flags =
     (if length flags \<noteq> length (row_index df) then Inl ValueError
      else Inr \<lparr> row_index = select_mask (row_index df) flags,
                 frame = map (\<lambda>(name, c). (name, select_column c flags)) (frame df) \<rparr>)"

text \<open>
  \<open>df.reset_index(drop=drop_ids)\<close>: a new dataframe with row ids \<open>0..m-1\<close>; unless
  \<open>drop_ids\<close> is set the old ids become a first column, named \<open>index\<close>, or \<open>level_0\<close>
  when a column \<open>index\<close> exists already; the call fails only when both names are taken.
\<close>

definition reset_index :: "dataframe \<Rightarrow> bool \<Rightarrow> py_error + dataframe" where
  "reset_index df drop_ids =
     (if drop_ids then Inr \<lparr> row_index = [0..<length (row_index df)], frame = frame df \<rparr>
      else
        (let name = (if ''index'' \<in> set (map fst (frame df)) then ''level_0'' else ''index'')
         in if name \<in> set (map fst (frame df)) then Inl ValueError
            else Inr \<lparr> row_index = [0..<length (row_index df)],
                       frame = (name, IntCol (map int (row_index df))) # frame df \<rparr>))"

text \<open>
  The exercise cell:
  \<^verbatim>\<open>infected_df = gdf.loc[gdf['infected'] == 1.0]\<close>,
  \<^verbatim>\<open>infected_df.reset_index(drop=True)\<close>.
  The second statement's value is not bound to any name.
\<close>

definition infected_df_exercise :: "dataframe \<Rightarrow> py_error + dataframe" where
  "infected_df_exercise gdf =
     (case getitem (frame gdf) ''infected'' of Inl e \<Rightarrow> Inl e | Inr infected \<Rightarrow>
      case eq_scalar infected 1 of Inl e \<Rightarrow> Inl e | Inr flags \<Rightarrow>
      case getitem_mask gdf flags of Inl e \<Rightarrow> Inl e | Inr infected_df \<Rightarrow>
      case reset_index infected_df True of Inl e \<Rightarrow> Inl e | Inr unused \<Rightarrow>
      Inr infected_df)"

text \<open>
  The solution cell:
  \<^verbatim>\<open>infected_df = gdf[gdf['infected'] == 1].reset_index()\<close>.
\<close>

definition infected_df_solution :: "dataframe \<Rightarrow> py_error + dataframe" where
  "infected_df_solution gdf =
     (case getitem (frame gdf) ''infected'' of Inl e \<Rightarrow> Inl e | Inr infected \<Rightarrow>
      case eq_scalar infected 1 of Inl e \<Rightarrow> Inl e | Inr flags \<Rightarrow>
      case getitem_mask gdf flags of Inl e \<Rightarrow> Inl e | Inr selected \<Rightarrow>
      reset_index selected False)"

section \<open>Density-based clustering\<close>

text \<open>
  Modelled from the spec: the notebook creates \<^verbatim>\<open>cuml.DBSCAN(eps=5000)\<close> and calls its
  \<^verbatim>\<open>fit_predict\<close>; the clustering code itself is not among the repository's files. The
  definitions of this section follow sections 4.3 (SpatialIndex) and 4.4
  (DBSCANClusterer) of the specification.
\<close>

type_synonym point = "real \<times> real"

text \<open>Modelled from the spec: the Euclidean distance of two grid points.\<close>

definition distance :: "point \<Rightarrow> point \<Rightarrow> real" where
  "distance p q = sqrt ((fst p - fst q)\<^sup>2 + (snd p - snd q)\<^sup>2)"

text \<open>
  Modelled from the spec: \<open>rangeQuery(point, eps)\<close>, the indices of the points within
  Euclidean distance \<open>\<le> eps\<close> of the point, the boundary included.
\<close>

definition rangeQuery :: "point list \<Rightarrow> point \<Rightarrow> real \<Rightarrow> nat list" where
  "rangeQuery points p eps =
     filter (\<lambda>j. distance p (points ! j) \<le> eps) [0..<length points]"

text \<open>Modelled from the spec: the state machine over point labels.\<close>

datatype label = Unvisited | Noise | Assigned nat

text \<open>
  Modelled from the spec: the labels a cluster may take over (unvisited or noise), and
  the labelling of a list of points with cluster \<open>c\<close>.
\<close>

fun absorbable :: "label \<Rightarrow> bool" where
  "absorbable Unvisited = True"
| "absorbable Noise = True"
| "absorbable (Assigned c) = False"

definition assign :: "nat \<Rightarrow> nat list \<Rightarrow> (nat \<Rightarrow> label) \<Rightarrow> (nat \<Rightarrow> label)" where
  "assign c js labels = fold (\<lambda>j l. l(j := Assigned c)) js labels"

text \<open>
  Modelled from the spec: step 4's breadth-first expansion, as a worklist. For each
  point \<open>q\<close> newly added to cluster \<open>c\<close>: if \<open>q\<close> is a core point, its unvisited and
  noise-labelled neighbours join the cluster and the worklist.
\<close>

function expand ::
  "point list \<Rightarrow> real \<Rightarrow> nat \<Rightarrow> nat \<Rightarrow> nat list \<Rightarrow> (nat \<Rightarrow> label) \<Rightarrow> (nat \<Rightarrow> label)" where
  "expand points eps minPts c [] labels = labels"
| "expand points eps minPts c (q # queue) labels =
     (let neighbors = rangeQuery points (points ! q) eps in
      if minPts \<le> length neighbors then
        (let new = filter (\<lambda>j. absorbable (labels j)) neighbors
         in expand points eps minPts c (queue @ new) (assign c new labels))
      else expand points eps minPts c queue labels)"
  by pat_completeness auto
termination
proof (relation "inv_image (less_than <*lex*> less_than)
    (\<lambda>(points, eps, minPts, c, queue, labels).
       (card {j. j < length points \<and> absorbable (labels j)}, length queue))")
  show "wf (inv_image (less_than <*lex*> less_than)
    (\<lambda>(points, eps, minPts, c, queue, labels).
       (card {j. j < length points \<and> absorbable (labels j)}, length queue)))"
    by (intro wf_inv_image wf_lex_prod wf_less_than)
next
  fix points :: "point list" and eps :: real and minPts c q :: nat and queue :: "nat list"
    and labels :: "nat \<Rightarrow> label" and neighbors new
  assume nb: "neighbors = rangeQuery points (points ! q) eps"
    and new: "new = filter (\<lambda>j. absorbable (labels j)) neighbors"
  have assign_eq: "assign c js l j = (if j \<in> set js then Assigned c else l j)" for js l j
    unfolding assign_def by (induction js arbitrary: l) auto
  let ?A = "{j. j < length points \<and> absorbable (labels j)}"
  let ?B = "{j. j < length points \<and> absorbable (assign c new labels j)}"
  have B: "?B = ?A - set new" by (auto simp: assign_eq)
  have sub: "set new \<subseteq> ?A" by (auto simp: new nb rangeQuery_def)
  have fin: "finite ?A" by simp
  show "((points, eps, minPts, c, queue @ new, assign c new labels),
         (points, eps, minPts, c, q # queue, labels))
        \<in> inv_image (less_than <*lex*> less_than)
    (\<lambda>(points, eps, minPts, c, queue, labels).
       (card {j. j < length points \<and> absorbable (labels j)}, length queue))"
  proof (cases "new = []")
    case True
    then show ?thesis by (simp add: assign_def)
  next
    case False
    then obtain x where "x \<in> set new" by (cases new) auto
    with sub have "?A - set new \<subset> ?A" by auto
    then have "card ?B < card ?A" unfolding B using fin by (rule psubset_card_mono[rotated])
    then show ?thesis by simp
  qed
next
  fix points :: "point list" and eps :: real and minPts c q :: nat and queue :: "nat list"
    and labels :: "nat \<Rightarrow> label"
  show "((points, eps, minPts, c, queue, labels),
         (points, eps, minPts, c, q # queue, labels))
        \<in> inv_image (less_than <*lex*> less_than)
    (\<lambda>(points, eps, minPts, c, queue, labels).
       (card {j. j < length points \<and> absorbable (labels j)}, length queue))"
    by simp
qed

text \<open>
  Modelled from the spec: steps 2 to 4 over the points in input order. An unvisited
  point with fewer than \<open>minPts\<close> neighbours becomes noise; otherwise it starts the
  cluster with the next unused id \<open>c\<close>, all of its neighbours are added to that cluster
  whatever their label, and the cluster is expanded from them.
\<close>

fun scan ::
  "point list \<Rightarrow> real \<Rightarrow> nat \<Rightarrow> nat list \<Rightarrow> nat \<Rightarrow> (nat \<Rightarrow> label) \<Rightarrow> (nat \<Rightarrow> label)" where
  "scan points eps minPts [] c labels = labels"
| "scan points eps minPts (p # ps) c labels =
     (if labels p \<noteq> Unvisited then scan points eps minPts ps c labels
      else
        (let neighbors = rangeQuery points (points ! p) eps in
         if length neighbors < minPts
         then scan points eps minPts ps c (labels(p := Noise))
         else scan points eps minPts ps (Suc c)
                (expand points eps minPts c neighbors (assign c neighbors labels))))"

text \<open>Modelled from the spec: step 1 and the whole pass; the final label of every point.\<close>

definition cluster_labels :: "point list \<Rightarrow> real \<Rightarrow> nat \<Rightarrow> label list" where
  "cluster_labels points eps minPts =
     map (scan points eps minPts [0..<length points] 0 (\<lambda>j. Unvisited)) [0..<length points]"

text \<open>
  Modelled from the spec: the cluster id of a label, \<open>-1\<close> for a point that belongs to
  no cluster.
\<close>

fun clusterId :: "label \<Rightarrow> int" where
  "clusterId (Assigned c) = int c"
| "clusterId Noise = - 1"
| "clusterId Unvisited = - 1"

text \<open>
  Modelled from the spec: \<open>cluster(points, eps, minPts)\<close>, the cluster id of every point
  by index. \<open>minPts \<le> 0\<close> and \<open>eps < 0\<close> are configuration errors.
\<close>

datatype config_error = BadMinPts | BadEps

definition cluster :: "point list \<Rightarrow> real \<Rightarrow> int \<Rightarrow> config_error + int list" where
  "cluster points eps minPts =
     (if minPts \<le> 0 then Inl BadMinPts
      else if eps < 0 then Inl BadEps
      else Inr (map clusterId (cluster_labels points eps (nat minPts))))"

text \<open>
  Modelled from the spec: a core point has at least \<open>minPts\<close> neighbours, itself
  included, within \<open>eps\<close>.
\<close>

definition is_core :: "point list \<Rightarrow> real \<Rightarrow> nat \<Rightarrow> nat \<Rightarrow> bool" where
  "is_core points eps minPts q \<longleftrightarrow> minPts \<le> length (rangeQuery points (points ! q) eps)"

definition neighbors_of :: "point list \<Rightarrow> real \<Rightarrow> nat \<Rightarrow> nat set" where
  "neighbors_of points eps q = set (rangeQuery points (points ! q) eps)"

text \<open>
  Two invariants of the algorithm, used in the proofs below. \<open>closed_under\<close>: every
  core point that belongs to a cluster and is not waiting in the worklist has all its
  neighbours in clusters. \<open>scan_inv\<close>, when the points before \<open>i\<close> have been visited and
  \<open>c\<close> ids have been used: no id is \<open>c\<close> or more, noise points are not core points, no
  point before \<open>i\<close> is unvisited, and every cluster \<open>x < c\<close> has a first core point,
  which comes after a core point of every cluster with a smaller id.
\<close>

definition closed_under ::
  "point list \<Rightarrow> real \<Rightarrow> nat \<Rightarrow> nat set \<Rightarrow> (nat \<Rightarrow> label) \<Rightarrow> bool" where
  "closed_under points eps minPts pending labels \<longleftrightarrow>
     (\<forall>q. is_core points eps minPts q \<and> \<not> absorbable (labels q) \<and> q \<notin> pending \<longrightarrow>
          (\<forall>j \<in> neighbors_of points eps q. \<not> absorbable (labels j)))"

definition scan_inv ::
  "point list \<Rightarrow> real \<Rightarrow> nat \<Rightarrow> nat \<Rightarrow> nat \<Rightarrow> (nat \<Rightarrow> label) \<Rightarrow> bool" where
  "scan_inv points eps minPts i c labels \<longleftrightarrow>
     closed_under points eps minPts {} labels
     \<and> (\<forall>j x. labels j = Assigned x \<longrightarrow> x < c)
     \<and> (\<forall>j. labels j = Noise \<longrightarrow> \<not> is_core points eps minPts j)
     \<and> (\<forall>j < i. labels j \<noteq> Unvisited)
     \<and> (\<forall>x < c. \<exists>s < i. is_core points eps minPts s \<and> labels s = Assigned x
            \<and> (\<forall>j. is_core points eps minPts j \<and> labels j = Assigned x \<longrightarrow> s \<le> j)
            \<and> (\<forall>y < x. \<exists>t < s. is_core points eps minPts t \<and> labels t = Assigned y))"

section \<open>The array code computes the projection point by point\<close>

lemma map2_same: "map2 f (map g zs) (map h zs) = map (\<lambda>z. f (g z) (h z)) zs"
  by (induction zs) auto

lemmas nd_simps = plus_ndarray_def minus_ndarray_def times_ndarray_def divide_ndarray_def
  ipow_def fpow_def cp_sin_def cp_cos_def cp_tan_def map2_same broadcast.simps elementwise.simps
  list.map_comp comp_def length_map if_True refl

lemma M_form:
  fixes n :: real
  shows "(1 + n + 5 / 4 * (n\<^sup>2 + n ^ 3)) * d - (3 * (n + n\<^sup>2) + 21 / 8 * n ^ 3) * s1 * c1
           + 15 / 8 * (n\<^sup>2 + n ^ 3) * s2 * c2 - 35 / 24 * n ^ 3 * s3 * c3
         = (1 + n + 5 / 4 * n\<^sup>2 + 5 / 4 * n ^ 3) * d
           - (3 * n + 3 * n\<^sup>2 + 21 / 8 * n ^ 3) * s1 * c1
           + (15 / 8 * n\<^sup>2 + 15 / 8 * n ^ 3) * s2 * c2 - 35 / 24 * n ^ 3 * s3 * c3"
  by (simp add: algebra_simps)

lemma exponents: "(- 0.5 :: real) = - 1 / 2" "(- 1.5 :: real) = - 3 / 2"
  by simp_all

lemmas spec_defs = project_point_def to_radians_def spec_northing_def spec_easting_def
  term_I_def term_II_def term_III_def term_IIIA_def term_IV_def term_V_def term_VI_def
  spec_M_def spec_eta2_def spec_rho_def spec_nu_def spec_n_def spec_e2_def OSGB36_def
  ProjectionParameters.select_convs Let_def fst_conv snd_conv

lemma grid_arrays_True:
  "grid_arrays (Array (map fst zs)) (Array (map snd zs)) True =
     (Array (map (\<lambda>pt. fst (project_point OSGB36 True pt)) zs),
      Array (map (\<lambda>pt. snd (project_point OSGB36 True pt)) zs))"
  unfolding grid_arrays_def Let_def
  apply (simp only: nd_simps)
  apply (simp only: spec_defs if_True M_form exponents)
  done

lemma grid_arrays_False:
  "grid_arrays (Array (map fst zs)) (Array (map snd zs)) False =
     (Array (map (\<lambda>pt. fst (project_point OSGB36 False pt)) zs),
      Array (map (\<lambda>pt. snd (project_point OSGB36 False pt)) zs))"
  unfolding grid_arrays_def Let_def
  apply (simp only: nd_simps if_False)
  apply (simp only: spec_defs if_False M_form exponents)
  done

lemma grid_arrays_project:
  assumes "length lats = length longs"
  shows "grid_arrays (Array lats) (Array longs) deg =
     (Array (map fst (project OSGB36 deg (zip lats longs))),
      Array (map snd (project OSGB36 deg (zip lats longs))))"
proof -
  have "map fst (zip lats longs) = lats" "map snd (zip lats longs) = longs"
    using assms by simp_all
  then have "grid_arrays (Array lats) (Array longs) deg =
     (Array (map (\<lambda>pt. fst (project_point OSGB36 deg pt)) (zip lats longs)),
      Array (map (\<lambda>pt. snd (project_point OSGB36 deg pt)) (zip lats longs)))"
    using grid_arrays_True [of "zip lats longs"] grid_arrays_False [of "zip lats longs"]
    by (cases deg) simp_all
  then show ?thesis by (simp add: project_def comp_def)
qed

text \<open>
  For every latitude the base of the two real powers is positive, and \<open>nu\<close> and \<open>rho\<close>
  are positive: the power and the quotient \<open>nu / rho\<close> of the model are the ones the code
  computes, not a convention for an undefined value.
\<close>

lemma e2_bounds: "0 < spec_e2 OSGB36" "spec_e2 OSGB36 < 1"
  by (simp_all add: spec_e2_def OSGB36_def power2_eq_square)

lemma radicand_positive: "0 < 1 - spec_e2 OSGB36 * (sin lat)\<^sup>2"
proof -
  have "(sin lat)\<^sup>2 \<le> 1" by (simp add: abs_square_le_1)
  then have "spec_e2 OSGB36 * (sin lat)\<^sup>2 \<le> spec_e2 OSGB36 * 1"
    using e2_bounds(1) by (intro mult_left_mono) simp_all
  with e2_bounds(2) show ?thesis by simp
qed

lemma nu_rho_positive: "0 < spec_nu OSGB36 lat" "0 < spec_rho OSGB36 lat"
proof -
  have a: "0 < semiMajorAxis OSGB36 * scaleFactor OSGB36" by (simp add: OSGB36_def)
  have p: "0 < (1 - spec_e2 OSGB36 * (sin lat)\<^sup>2) powr r" for r
    using radicand_positive [of lat] by simp
  from a p [of "- 1 / 2"] show "0 < spec_nu OSGB36 lat"
    unfolding spec_nu_def by (rule mult_pos_pos)
  have "0 < 1 - spec_e2 OSGB36" using e2_bounds(2) by simp
  with a have "0 < semiMajorAxis OSGB36 * scaleFactor OSGB36 * (1 - spec_e2 OSGB36)"
    by (rule mult_pos_pos)
  from this p [of "- 3 / 2"] show "0 < spec_rho OSGB36 lat"
    unfolding spec_rho_def by (rule mult_pos_pos)
qed

subsection \<open>Columns of a partition\<close>

lemma wf_col_len:
  "wf_partition df \<Longrightarrow> map_of df name = Some c \<Longrightarrow> col_len c = nrows df"
  by (auto simp: wf_partition_def list_all_iff dest!: map_of_SomeD)

lemma nrows_update:
  "df \<noteq> [] \<Longrightarrow> col_len c = nrows df \<Longrightarrow> nrows (AList.update name c df) = nrows df"
  by (cases df) auto


lemma update_nonempty: "AList.update name c df \<noteq> []"
  by (cases df) auto

lemma transform_result:
  assumes wf: "wf_partition part_df"
    and lat: "map_of part_df lat_col = Some (FloatCol lats)"
    and long: "map_of part_df long_col = Some (FloatCol longs)"
  shows "latlong2osgbgrid_dask part_df lat_col long_col deg =
     Inr (AList.update ''easting'' (FloatCol (map snd (project OSGB36 deg (zip lats longs))))
           (AList.update ''northing'' (FloatCol (map fst (project OSGB36 deg (zip lats longs))))
              part_df))"
proof -
  have n1: "length lats = nrows part_df" and n2: "length longs = nrows part_df"
    using wf_col_len [OF wf lat] wf_col_len [OF wf long] by simp_all
  have ne: "part_df \<noteq> []" using lat by auto
  have len: "length (project OSGB36 deg (zip lats longs)) = nrows part_df"
    using n1 n2 by (simp add: project_def)
  show ?thesis
    using n1 n2 ne len
    by (simp add: latlong2osgbgrid_dask_def getitem_def lat long grid_arrays_project
        setitem_def nrows_update update_nonempty)
qed


subsection \<open>Rows of the transformed partition\<close>

lemma map_update_entries:
  "map (\<lambda>(name, c). (name, g c)) (AList.update k v al)
     = AList.update k (g v) (map (\<lambda>(name, c). (name, g c)) al)"
  by (induction al) auto

lemma row_at_update:
  "row_at (AList.update k c df) i = AList.update k (cell_at c i) (row_at df i)"
  by (simp add: row_at_def map_update_entries)

lemma map_of_row_at:
  "map_of (row_at df i) name = map_option (\<lambda>c. cell_at c i) (map_of df name)"
  by (induction df) (auto simp: row_at_def)

lemma rows_transform:
  assumes wf: "wf_partition part_df"
    and lat: "map_of part_df lat_col = Some (FloatCol lats)"
    and long: "map_of part_df long_col = Some (FloatCol longs)"
    and out: "latlong2osgbgrid_dask part_df lat_col long_col deg = Inr out"
  shows "rows out = map (project_row lat_col long_col deg) (rows part_df)"
proof -
  let ?pts = "project OSGB36 deg (zip lats longs)"
  have n1: "length lats = nrows part_df" and n2: "length longs = nrows part_df"
    using wf_col_len [OF wf lat] wf_col_len [OF wf long] by simp_all
  have ne: "part_df \<noteq> []" using lat by auto
  have len: "length ?pts = nrows part_df"
    using n1 n2 by (simp add: project_def)
  have out_eq: "out = AList.update ''easting'' (FloatCol (map snd ?pts))
           (AList.update ''northing'' (FloatCol (map fst ?pts)) part_df)"
    using transform_result [OF wf lat long, of deg] out by simp
  have nr: "nrows out = nrows part_df"
    using ne len by (simp add: out_eq nrows_update update_nonempty)
  have "row_at out i = project_row lat_col long_col deg (row_at part_df i)"
    if "i < nrows part_df" for i
  proof -
    have "?pts ! i = project_point OSGB36 deg (lats ! i, longs ! i)"
      using that n1 n2 by (simp add: project_def)
    then show ?thesis
      using that len
      by (simp add: out_eq row_at_update project_row_def map_of_row_at lat long)
  qed
  then show ?thesis
    by (simp add: rows_def nr)
qed

text \<open>
  In exact arithmetic the true origin of the projection, latitude 49 and longitude -2
  degrees, is mapped to \<open>(N0, E0)\<close>. Rounding in the precision of the columns is not
  part of this model.
\<close>

lemma origin_point: "project_point OSGB36 True (49, - 2) = (- 100000, 400000)"
  by (simp add: spec_defs)

lemma getitem_Inr: "getitem df name = Inr c \<longleftrightarrow> map_of df name = Some c"
  by (simp add: getitem_def split: option.splits)

lemma getitem_update_same: "getitem (AList.update k c df) k = Inr c"
  by (simp add: getitem_def update_conv')

lemma getitem_update_other: "k' \<noteq> k \<Longrightarrow> getitem (AList.update k c df) k' = getitem df k'"
  by (simp add: getitem_def update_conv')


subsection \<open>Columns the transform leaves alone\<close>

lemma filter_update_excluded:
  "\<not> P (k, v) \<Longrightarrow> (\<And>v'. \<not> P (k, v')) \<Longrightarrow> filter P (AList.update k v al) = filter P al"
  by (induction al) auto

lemma other_columns_update:
  "k = ''northing'' \<or> k = ''easting'' \<Longrightarrow>
     other_columns (AList.update k c df) = other_columns df"
  unfolding other_columns_def by (rule filter_update_excluded) auto





subsection \<open>Float columns; the origin with another false easting\<close>

lemma has_float_columnD:
  "has_float_column df name \<Longrightarrow> \<exists>xs. map_of df name = Some (FloatCol xs)"
  by (auto split: option.splits column.splits)

lemma shifted_origin_point:
  "project_point (OSGB36\<lparr>falseEasting := 500000\<rparr>) True (49, - 2) = (- 100000, 500000)"
  by (simp add: spec_defs)

section \<open>Properties of the grid conversion\<close>


text \<open>
  C4. On every pair of latitude and longitude arrays of one length, the array code
  returns, at every position, the closed-form Transverse Mercator series of the
  specification at the OSGB36 parameters: the inputs converted to radians when the flag
  is set, northing \<open>I + II d\<^sup>2 + III d\<^sup>4 + IIIA d\<^sup>6\<close> and easting
  \<open>E0 + IV d + V d\<^sup>3 + VI d\<^sup>5\<close> in the longitude difference \<open>d\<close>, where the terms
  \<open>I\<close> to \<open>VI\<close> are built from \<open>e2\<close>, \<open>n\<close>, \<open>nu\<close>, \<open>rho\<close>, \<open>eta2\<close> and \<open>M\<close> as defined
  above.
\<close>

theorem kernel_is_transverse_mercator_series:
  assumes "length lats = length longs"
  shows "\<exists>northing easting.
     grid_arrays (Array lats) (Array longs) input_degrees = (Array northing, Array easting)
     \<and> length northing = length lats \<and> length easting = length lats
     \<and> (\<forall>i < length lats.
          (let lat = to_radians input_degrees (lats ! i);
               long = to_radians input_degrees (longs ! i);
               longdiff = long - originLongitude OSGB36
           in northing ! i =
                term_I OSGB36 lat + term_II OSGB36 lat * longdiff\<^sup>2
                  + term_III OSGB36 lat * longdiff ^ 4 + term_IIIA OSGB36 lat * longdiff ^ 6
              \<and> easting ! i =
                falseEasting OSGB36 + term_IV OSGB36 lat * longdiff
                  + term_V OSGB36 lat * longdiff ^ 3 + term_VI OSGB36 lat * longdiff ^ 5))"
proof -
  let ?pts = "project OSGB36 input_degrees (zip lats longs)"
  have eq: "grid_arrays (Array lats) (Array longs) input_degrees
              = (Array (map fst ?pts), Array (map snd ?pts))"
    by (rule grid_arrays_project [OF assms])
  have len: "length ?pts = length lats" using assms by (simp add: project_def)
  have "\<forall>i < length lats.
          (let lat = to_radians input_degrees (lats ! i);
               long = to_radians input_degrees (longs ! i);
               longdiff = long - originLongitude OSGB36
           in map fst ?pts ! i =
                term_I OSGB36 lat + term_II OSGB36 lat * longdiff\<^sup>2
                  + term_III OSGB36 lat * longdiff ^ 4 + term_IIIA OSGB36 lat * longdiff ^ 6
              \<and> map snd ?pts ! i =
                falseEasting OSGB36 + term_IV OSGB36 lat * longdiff
                  + term_V OSGB36 lat * longdiff ^ 3 + term_VI OSGB36 lat * longdiff ^ 5)"
    using assms
    by (simp add: project_def project_point_def spec_northing_def spec_easting_def Let_def)
  with eq len show ?thesis
    by (intro exI [of _ "map fst ?pts"] exI [of _ "map snd ?pts"]) simp
qed

theorem kernel_is_transverse_mercator_series_witness:
  "length [49 :: real] = length [- 2 :: real]
   \<and> (\<exists>northing easting.
     grid_arrays (Array [49]) (Array [- 2]) True = (Array northing, Array easting)
     \<and> length northing = 1 \<and> length easting = 1
     \<and> northing ! 0 =
           term_I OSGB36 (to_radians True 49)
           + term_II OSGB36 (to_radians True 49)
               * (to_radians True (- 2) - originLongitude OSGB36)\<^sup>2
           + term_III OSGB36 (to_radians True 49)
               * (to_radians True (- 2) - originLongitude OSGB36) ^ 4
           + term_IIIA OSGB36 (to_radians True 49)
               * (to_radians True (- 2) - originLongitude OSGB36) ^ 6
     \<and> easting ! 0 =
           falseEasting OSGB36
           + term_IV OSGB36 (to_radians True 49)
               * (to_radians True (- 2) - originLongitude OSGB36)
           + term_V OSGB36 (to_radians True 49)
               * (to_radians True (- 2) - originLongitude OSGB36) ^ 3
           + term_VI OSGB36 (to_radians True 49)
               * (to_radians True (- 2) - originLongitude OSGB36) ^ 5)"
proof -
  have h: "length [49 :: real] = length [- 2 :: real]" by simp
  from kernel_is_transverse_mercator_series [OF h, of True]
  obtain northing easting where
    g: "grid_arrays (Array [49]) (Array [- 2]) True = (Array northing, Array easting)"
    and l: "length northing = length [49 :: real]" "length easting = length [49 :: real]"
    and pw: "\<forall>i < length [49 :: real].
          (let lat = to_radians True ([49] ! i);
               long = to_radians True ([- 2] ! i);
               longdiff = long - originLongitude OSGB36
           in northing ! i =
                term_I OSGB36 lat + term_II OSGB36 lat * longdiff\<^sup>2
                  + term_III OSGB36 lat * longdiff ^ 4 + term_IIIA OSGB36 lat * longdiff ^ 6
              \<and> easting ! i =
                falseEasting OSGB36 + term_IV OSGB36 lat * longdiff
                  + term_V OSGB36 lat * longdiff ^ 3 + term_VI OSGB36 lat * longdiff ^ 5)"
    by (elim exE conjE)
  have p0: "northing ! 0 =
           term_I OSGB36 (to_radians True 49)
           + term_II OSGB36 (to_radians True 49)
               * (to_radians True (- 2) - originLongitude OSGB36)\<^sup>2
           + term_III OSGB36 (to_radians True 49)
               * (to_radians True (- 2) - originLongitude OSGB36) ^ 4
           + term_IIIA OSGB36 (to_radians True 49)
               * (to_radians True (- 2) - originLongitude OSGB36) ^ 6"
    and p1: "easting ! 0 =
           falseEasting OSGB36
           + term_IV OSGB36 (to_radians True 49)
               * (to_radians True (- 2) - originLongitude OSGB36)
           + term_V OSGB36 (to_radians True 49)
               * (to_radians True (- 2) - originLongitude OSGB36) ^ 3
           + term_VI OSGB36 (to_radians True 49)
               * (to_radians True (- 2) - originLongitude OSGB36) ^ 5"
    using pw [rule_format, of 0] by (simp_all add: Let_def)
  from l have l': "length northing = 1" "length easting = 1" by simp_all
  show ?thesis
    using g l' p0 p1 by (intro conjI h exI [of _ northing] exI [of _ easting])
qed

text \<open>
  C5, as stated: the projection parameters are an explicit configuration of the kernel,
  so that another ellipsoid or origin can be substituted. The code has no such argument;
  the parameters are constants in its body. Projecting the true origin with the false
  easting replaced by 500000 differs from what the code returns for that point.
\<close>

theorem substituted_parameters_counterexample:
  "grid_arrays (Array [49]) (Array [- 2]) True
     \<noteq> (Array (map fst (project (OSGB36\<lparr>falseEasting := 500000\<rparr>) True [(49, - 2)])),
         Array (map snd (project (OSGB36\<lparr>falseEasting := 500000\<rparr>) True [(49, - 2)])))"
proof -
  have "grid_arrays (Array [49]) (Array [- 2]) True = (Array [- 100000], Array [400000])"
    using grid_arrays_project [of "[49]" "[- 2]" True]
    by (simp add: project_def origin_point)
  then show ?thesis
    by (simp add: project_def shifted_origin_point)
qed

text \<open>
  C5, amended: the transform takes the partition, the two column names and the degrees
  flag only, and always projects with the OSGB36 values
  \<open>a = 6377563.396\<close>, \<open>b = 6356256.909\<close>, \<open>N0 = -100000\<close>, \<open>E0 = 400000\<close>,
  \<open>F0 = 0.9996012717\<close>, \<open>phi0 = 49 degrees\<close>, \<open>lambda0 = -2 degrees\<close>.
\<close>

theorem parameters_fixed_to_OSGB36:
  assumes "wf_partition part_df"
    and "getitem part_df lat_col = Inr (FloatCol lats)"
    and "getitem part_df long_col = Inr (FloatCol longs)"
  shows "\<exists>out.
     latlong2osgbgrid_dask part_df lat_col long_col input_degrees = Inr out
     \<and> getitem out ''northing'' = Inr (FloatCol (map fst
          (project \<lparr> semiMajorAxis = 6377563.396, semiMinorAxis = 6356256.909,
                      falseNorthing = - 100000, falseEasting = 400000,
                      scaleFactor = 0.9996012717,
                      originLatitude = 49 * pi / 180, originLongitude = - 2 * pi / 180 \<rparr>
             input_degrees (zip lats longs))))
     \<and> getitem out ''easting'' = Inr (FloatCol (map snd
          (project \<lparr> semiMajorAxis = 6377563.396, semiMinorAxis = 6356256.909,
                      falseNorthing = - 100000, falseEasting = 400000,
                      scaleFactor = 0.9996012717,
                      originLatitude = 49 * pi / 180, originLongitude = - 2 * pi / 180 \<rparr>
             input_degrees (zip lats longs))))"
proof -
  let ?pts = "project OSGB36 input_degrees (zip lats longs)"
  let ?out = "AList.update ''easting'' (FloatCol (map snd ?pts))
                (AList.update ''northing'' (FloatCol (map fst ?pts)) part_df)"
  have lat: "map_of part_df lat_col = Some (FloatCol lats)"
    and long: "map_of part_df long_col = Some (FloatCol longs)"
    using assms by (simp_all add: getitem_Inr)
  have res: "latlong2osgbgrid_dask part_df lat_col long_col input_degrees = Inr ?out"
    by (rule transform_result [OF assms(1) lat long])
  have gn: "getitem ?out ''northing'' = Inr (FloatCol (map fst ?pts))"
    by (simp add: getitem_update_other getitem_update_same)
  have ge: "getitem ?out ''easting'' = Inr (FloatCol (map snd ?pts))"
    by (simp add: getitem_update_same)
  show ?thesis
    unfolding OSGB36_def [symmetric]
    using res gn ge by (intro exI [of _ ?out] conjI)
qed

theorem parameters_fixed_to_OSGB36_witness:
  "wf_partition [(''lat'', FloatCol [49]), (''long'', FloatCol [- 2])]
   \<and> getitem [(''lat'', FloatCol [49]), (''long'', FloatCol [- 2])] ''lat'' = Inr (FloatCol [49])
   \<and> getitem [(''lat'', FloatCol [49]), (''long'', FloatCol [- 2])] ''long'' = Inr (FloatCol [- 2])
   \<and> (\<exists>out.
     latlong2osgbgrid_dask [(''lat'', FloatCol [49]), (''long'', FloatCol [- 2])]
        ''lat'' ''long'' True = Inr out
     \<and> getitem out ''northing'' = Inr (FloatCol [- 100000])
     \<and> getitem out ''easting'' = Inr (FloatCol [400000]))"
proof -
  let ?P = "[(''lat'', FloatCol [49]), (''long'', FloatCol [- 2])]"
  have h1: "wf_partition ?P" by (simp add: wf_partition_def)
  have h2: "getitem ?P ''lat'' = Inr (FloatCol [49])" by (simp add: getitem_def)
  have h3: "getitem ?P ''long'' = Inr (FloatCol [- 2])" by (simp add: getitem_def)
  have pts: "project OSGB36 True (zip [49] [- 2]) = [(- 100000, 400000)]"
    by (simp add: project_def origin_point)
  from parameters_fixed_to_OSGB36 [OF h1 h2 h3, of True]
  have "\<exists>out.
     latlong2osgbgrid_dask ?P ''lat'' ''long'' True = Inr out
     \<and> getitem out ''northing'' = Inr (FloatCol [- 100000])
     \<and> getitem out ''easting'' = Inr (FloatCol [400000])"
    unfolding OSGB36_def [symmetric] pts by simp
  with h1 h2 h3 show ?thesis by (intro conjI)
qed



section \<open>The transform and row ids\<close>

subsection \<open>The column assignment on default and on other row ids\<close>

lemma align_default: "length values = n \<Longrightarrow> align [0..<n] values = map Some values"
  by (auto simp: align_def intro!: nth_equalityI)

lemma those_map_Some: "those (map Some xs) = Some xs"
  by (induction xs) simp_all

lemma aligned_default:
  "length values = n \<Longrightarrow> aligned_column (align [0..<n] values) = FloatCol values"
  by (simp add: align_default aligned_column_def those_map_Some)

lemma wf_dataframe_col_len:
  "wf_dataframe df \<Longrightarrow> map_of (frame df) name = Some c \<Longrightarrow> col_len c = length (row_index df)"
  by (auto simp: wf_dataframe_def list_all_iff dest!: map_of_SomeD)

lemma ids_transform_result:
  assumes wf: "wf_partition (frame df)"
    and lat: "map_of (frame df) lat_col = Some (FloatCol lats)"
    and long: "map_of (frame df) long_col = Some (FloatCol longs)"
  shows "latlong2osgbgrid_dask_ids df lat_col long_col deg =
     Inr (df\<lparr>frame :=
       AList.update ''easting''
         (aligned_column (align (row_index df) (map snd (project OSGB36 deg (zip lats longs)))))
         (AList.update ''northing''
            (aligned_column (align (row_index df) (map fst (project OSGB36 deg (zip lats longs)))))
            (frame df))\<rparr>)"
proof -
  have "length lats = nrows (frame df)" "length longs = nrows (frame df)"
    using wf_col_len [OF wf lat] wf_col_len [OF wf long] by simp_all
  then have len: "length lats = length longs" by simp
  show ?thesis
    by (simp add: latlong2osgbgrid_dask_ids_def getitem_def lat long
        grid_arrays_project [OF len])
qed

lemma ids_transform_default:
  assumes wf: "wf_dataframe df" and ids: "default_ids df"
    and lat: "map_of (frame df) lat_col = Some (FloatCol lats)"
    and long: "map_of (frame df) long_col = Some (FloatCol longs)"
  shows "\<exists>out. latlong2osgbgrid_dask (frame df) lat_col long_col deg = Inr out
           \<and> latlong2osgbgrid_dask_ids df lat_col long_col deg = Inr (df\<lparr>frame := out\<rparr>)"
proof -
  let ?pts = "project OSGB36 deg (zip lats longs)"
  let ?n = "length (row_index df)"
  have wfp: "wf_partition (frame df)" using wf by (simp add: wf_dataframe_def)
  have "length lats = ?n" "length longs = ?n"
    using wf_dataframe_col_len [OF wf lat] wf_dataframe_col_len [OF wf long] by simp_all
  then have len: "length (map fst ?pts) = ?n" "length (map snd ?pts) = ?n"
    by (simp_all add: project_def)
  have d: "row_index df = [0..<?n]" using ids by (simp add: default_ids_def)
  have a: "aligned_column (align (row_index df) (map fst ?pts)) = FloatCol (map fst ?pts)"
    by (subst d) (rule aligned_default [OF len(1)])
  have b: "aligned_column (align (row_index df) (map snd ?pts)) = FloatCol (map snd ?pts)"
    by (subst d) (rule aligned_default [OF len(2)])
  show ?thesis
    using transform_result [OF wfp lat long, of deg]
      ids_transform_result [OF wfp lat long, of deg]
    by (simp add: a b)
qed

lemma ids_transform_frame:
  assumes "wf_partition (frame df)"
    and "map_of (frame df) lat_col = Some (FloatCol lats)"
    and "map_of (frame df) long_col = Some (FloatCol longs)"
  shows "\<exists>out. latlong2osgbgrid_dask_ids df lat_col long_col deg = Inr out
           \<and> row_index out = row_index df
           \<and> other_columns (frame out) = other_columns (frame df)"
  unfolding ids_transform_result [OF assms]
  by (simp add: other_columns_update)






subsection \<open>Mapping over partitions\<close>

lemma grid_converter_frame_rows:
  assumes "geodetic_frame df"
  shows "\<exists>out. grid_converter df = Inr out
           \<and> frame_rows out = map (project_row ''lat'' ''long'' True) (frame_rows df)"
proof -
  from assms obtain lats longs where wf: "wf_dataframe df" and ids: "default_ids df"
    and lat: "map_of (frame df) ''lat'' = Some (FloatCol lats)"
    and long: "map_of (frame df) ''long'' = Some (FloatCol longs)"
    unfolding geodetic_frame_def by (blast dest: has_float_columnD)
  have wfp: "wf_partition (frame df)" using wf by (simp add: wf_dataframe_def)
  from ids_transform_default [OF wf ids lat long, of True]
  obtain out where pos: "latlong2osgbgrid_dask (frame df) ''lat'' ''long'' True = Inr out"
    and r: "latlong2osgbgrid_dask_ids df ''lat'' ''long'' True = Inr (df\<lparr>frame := out\<rparr>)"
    by blast
  from rows_transform [OF wfp lat long pos] r show ?thesis
    by (simp add: grid_converter_def frame_rows_def)
qed

lemma apply_partitions_rows:
  assumes "list_all geodetic_frame parts"
  shows "\<exists>outs. apply_partitions grid_converter parts = Inr outs
           \<and> length outs = length parts
           \<and> dataset_rows outs
                = map (project_row ''lat'' ''long'' True) (dataset_rows parts)"
  using assms
proof (induction parts)
  case Nil
  then show ?case by (simp add: dataset_rows_def)
next
  case (Cons part parts)
  from Cons.prems have "geodetic_frame part" and "list_all geodetic_frame parts"
    by simp_all
  from grid_converter_frame_rows [OF this(1)] Cons.IH [OF this(2)]
  show ?case by (auto simp: dataset_rows_def)
qed

lemma stand_in_len: "col_len (stand_in c) = 2"
  by (cases c) simp_all

lemma map_of_stand_in:
  "map_of (map (\<lambda>(name, c). (name, stand_in c)) fr) name = map_option stand_in (map_of fr name)"
  by (induction fr) auto

lemma wf_stand_in:
  assumes "distinct (map fst fr)"
  shows "wf_partition (map (\<lambda>(name, c). (name, stand_in c)) fr)"
proof -
  have names: "map fst (map (\<lambda>(name, c). (name, stand_in c)) fr) = map fst fr"
    by (induction fr) auto
  have "nrows (map (\<lambda>(name, c). (name, stand_in c)) fr) = 2" if "fr \<noteq> []"
    using that by (cases fr) (auto simp: stand_in_len)
  then have "list_all (\<lambda>(name, c). col_len c = nrows (map (\<lambda>(name, c). (name, stand_in c)) fr))
               (map (\<lambda>(name, c). (name, stand_in c)) fr)"
    by (cases "fr = []") (auto simp: list_all_iff stand_in_len)
  moreover have "distinct (map fst (map (\<lambda>(name, c). (name, stand_in c)) fr))"
    using assms by (simp only: names)
  ultimately show ?thesis unfolding wf_partition_def by (intro conjI)
qed

lemma meta_inference:
  assumes "geodetic_frame df"
  shows "\<exists>meta. grid_converter (meta_nonempty df) = Inr meta"
proof -
  from assms obtain lats longs where wf: "wf_partition (frame df)"
    and lat: "map_of (frame df) ''lat'' = Some (FloatCol lats)"
    and long: "map_of (frame df) ''long'' = Some (FloatCol longs)"
    unfolding geodetic_frame_def wf_dataframe_def by (blast dest: has_float_columnD)
  have "distinct (map fst (frame df))" using wf by (simp add: wf_partition_def)
  then have "wf_partition (map (\<lambda>(name, c). (name, stand_in c)) (frame df))"
    by (rule wf_stand_in)
  then have 1: "wf_partition (frame (meta_nonempty df))"
    by (simp only: meta_nonempty_def dataframe.simps)
  have 2: "map_of (frame (meta_nonempty df)) ''lat'' = Some (FloatCol [1, 1])"
    by (simp only: meta_nonempty_def dataframe.simps map_of_stand_in lat) simp
  have 3: "map_of (frame (meta_nonempty df)) ''long'' = Some (FloatCol [1, 1])"
    by (simp only: meta_nonempty_def dataframe.simps map_of_stand_in long) simp
  show ?thesis
    unfolding grid_converter_def ids_transform_result [OF 1 2 3] by simp
qed

lemma map_partitions_rows:
  assumes "list_all geodetic_frame parts"
  shows "\<exists>outs. map_partitions grid_converter parts = Inr outs
           \<and> length outs = length parts
           \<and> dataset_rows outs
                = map (project_row ''lat'' ''long'' True) (dataset_rows parts)"
proof (cases parts)
  case Nil
  then show ?thesis by (simp add: dataset_rows_def)
next
  case (Cons part rest)
  with assms have "geodetic_frame part" by simp
  from meta_inference [OF this] obtain meta
    where "grid_converter (meta_nonempty part) = Inr meta" ..
  then have "map_partitions grid_converter parts = apply_partitions grid_converter parts"
    unfolding Cons by simp
  with apply_partitions_rows [OF assms] show ?thesis by simp
qed

lemma grid_converter_two_columns:
  assumes "length lats = length longs"
  shows "grid_converter
           \<lparr> row_index = ids, frame = [(''lat'', FloatCol lats), (''long'', FloatCol longs)] \<rparr>
   = Inr \<lparr> row_index = ids,
           frame = [(''lat'', FloatCol lats), (''long'', FloatCol longs),
                    (''northing'',
                     aligned_column (align ids (map fst (project OSGB36 True (zip lats longs))))),
                    (''easting'',
                     aligned_column (align ids (map snd (project OSGB36 True (zip lats longs)))))] \<rparr>"
proof -
  let ?df = "\<lparr> row_index = ids,
                 frame = [(''lat'', FloatCol lats), (''long'', FloatCol longs)] \<rparr>"
  have wf: "wf_partition (frame ?df)" using assms by (simp add: wf_partition_def)
  have lat: "map_of (frame ?df) ''lat'' = Some (FloatCol lats)" by simp
  have long: "map_of (frame ?df) ''long'' = Some (FloatCol longs)" by simp
  show ?thesis
    unfolding grid_converter_def ids_transform_result [OF wf lat long] by simp
qed

text \<open>
  C8, as stated: one partition and any \<open>k\<close> partitions give the same multiset of output
  rows. A dataset of two rows with ids 0 and 1, split into two partitions that keep
  these ids, does not: in the second partition the row with id 1 finds no entry with
  id 1 in the one-entry series, and its northing and easting are missing, whereas the
  one-partition run computes them.
\<close>

theorem kept_row_ids_counterexample:
  "mapped_rows grid_converter
     [\<lparr> row_index = [0, 1],
        frame = [(''lat'', FloatCol [49, 54]), (''long'', FloatCol [- 2, - 1])] \<rparr>]
   \<noteq> mapped_rows grid_converter
     [\<lparr> row_index = [0], frame = [(''lat'', FloatCol [49]), (''long'', FloatCol [- 2])] \<rparr>,
      \<lparr> row_index = [1], frame = [(''lat'', FloatCol [54]), (''long'', FloatCol [- 1])] \<rparr>]"
  by (simp add: mapped_rows_def meta_nonempty_def grid_converter_two_columns
      align_def aligned_column_def project_def dataset_rows_def frame_rows_def
      rows_def row_at_def upt_rec)

text \<open>
  C8, amended: when the dataset and each of the partitions carry the default row ids,
  as Dask's CSV reader produces them, mapping the grid converter over the dataset held
  as one partition, and over any list of partitions whose rows, in order, are the
  dataset's rows, gives the same multiset of output rows; each computation returns as
  many partitions as it was given.
\<close>

theorem partition_count_independence_default_ids:
  assumes "geodetic_frame dataset"
    and "list_all geodetic_frame parts"
    and "dataset_rows parts = frame_rows dataset"
  shows "\<exists>one many.
     map_partitions grid_converter [dataset] = Inr one
     \<and> map_partitions grid_converter parts = Inr many
     \<and> length one = 1 \<and> length many = length parts
     \<and> mset (dataset_rows one) = mset (dataset_rows many)
     \<and> mapped_rows grid_converter [dataset] = mapped_rows grid_converter parts"
proof -
  have "list_all geodetic_frame [dataset]" using assms(1) by simp
  from map_partitions_rows [OF this]
  obtain one where one: "map_partitions grid_converter [dataset] = Inr one"
    "length one = length [dataset]"
    "dataset_rows one = map (project_row ''lat'' ''long'' True) (dataset_rows [dataset])"
    by (elim exE conjE)
  from map_partitions_rows [OF assms(2)]
  obtain many where many: "map_partitions grid_converter parts = Inr many"
    "length many = length parts"
    "dataset_rows many = map (project_row ''lat'' ''long'' True) (dataset_rows parts)"
    by (elim exE conjE)
  have "dataset_rows [dataset] = frame_rows dataset" by (simp add: dataset_rows_def)
  with one(3) many(3) assms(3) have eq: "dataset_rows one = dataset_rows many" by simp
  show ?thesis
    using one(1,2) many(1,2) eq
    by (intro exI [of _ one] exI [of _ many]) (simp add: mapped_rows_def)
qed

theorem partition_count_independence_default_ids_witness:
  "geodetic_frame \<lparr> row_index = [0, 1],
        frame = [(''lat'', FloatCol [49, 54]), (''long'', FloatCol [- 2, - 1])] \<rparr>
   \<and> list_all geodetic_frame
     [\<lparr> row_index = [0], frame = [(''lat'', FloatCol [49]), (''long'', FloatCol [- 2])] \<rparr>,
      \<lparr> row_index = [0], frame = [(''lat'', FloatCol [54]), (''long'', FloatCol [- 1])] \<rparr>]
   \<and> dataset_rows
     [\<lparr> row_index = [0], frame = [(''lat'', FloatCol [49]), (''long'', FloatCol [- 2])] \<rparr>,
      \<lparr> row_index = [0], frame = [(''lat'', FloatCol [54]), (''long'', FloatCol [- 1])] \<rparr>]
     = frame_rows \<lparr> row_index = [0, 1],
        frame = [(''lat'', FloatCol [49, 54]), (''long'', FloatCol [- 2, - 1])] \<rparr>
   \<and> mapped_rows grid_converter
        [\<lparr> row_index = [0, 1],
           frame = [(''lat'', FloatCol [49, 54]), (''long'', FloatCol [- 2, - 1])] \<rparr>]
     = mapped_rows grid_converter
        [\<lparr> row_index = [0], frame = [(''lat'', FloatCol [49]), (''long'', FloatCol [- 2])] \<rparr>,
         \<lparr> row_index = [0], frame = [(''lat'', FloatCol [54]), (''long'', FloatCol [- 1])] \<rparr>]"
proof -
  let ?D = "\<lparr> row_index = [0, 1],
        frame = [(''lat'', FloatCol [49, 54]), (''long'', FloatCol [- 2, - 1])] \<rparr>"
  let ?ps = "[\<lparr> row_index = [0], frame = [(''lat'', FloatCol [49]), (''long'', FloatCol [- 2])] \<rparr>,
      \<lparr> row_index = [0], frame = [(''lat'', FloatCol [54]), (''long'', FloatCol [- 1])] \<rparr>]"
  have h1: "geodetic_frame ?D"
    by (simp add: geodetic_frame_def wf_dataframe_def wf_partition_def default_ids_def upt_rec)
  have h2: "list_all geodetic_frame ?ps"
    by (simp add: geodetic_frame_def wf_dataframe_def wf_partition_def default_ids_def upt_rec)
  have h3: "dataset_rows ?ps = frame_rows ?D"
    by (simp add: dataset_rows_def frame_rows_def rows_def row_at_def upt_rec)
  from partition_count_independence_default_ids [OF h1 h2 h3]
  have "mapped_rows grid_converter [?D] = mapped_rows grid_converter ?ps"
    by blast
  with h1 h2 h3 show ?thesis by (intro conjI)
qed


section \<open>Row ids of the infected subset\<close>

text \<open>
  The solution cell returns row ids \<open>0..m-1\<close> for every input.
\<close>

lemma infected_df_solution_reindexed:
  assumes "infected_df_solution gdf = Inr out"
  shows "row_index out = [0..<length (row_index out)]"
  using assms
  by (auto simp: infected_df_solution_def reset_index_def
      split: sum.splits if_splits)

lemma infected_df_solution_example:
  "infected_df_solution
     \<lparr> row_index = [0, 1],
       frame = [(''northing'', FloatCol [1, 2]), (''easting'', FloatCol [3, 4]),
                (''infected'', FloatCol [0, 1])] \<rparr>
   = Inr \<lparr> row_index = [0],
           frame = [(''index'', IntCol [1]), (''northing'', FloatCol [2]),
                    (''easting'', FloatCol [4]), (''infected'', FloatCol [1])] \<rparr>"
  by (simp add: infected_df_solution_def getitem_def getitem_mask_def select_mask_def
      reset_index_def)

text \<open>
  C9. The exercise cell does not re-index: with two rows of which the second is
  infected, the selected row keeps the id 1 instead of 0, because the dataframe
  returned by \<open>reset_index\<close> is not bound to \<open>infected_df\<close>.
\<close>

theorem infected_df_exercise_keeps_row_ids:
  "infected_df_exercise
     \<lparr> row_index = [0, 1],
       frame = [(''northing'', FloatCol [1, 2]), (''easting'', FloatCol [3, 4]),
                (''infected'', FloatCol [0, 1])] \<rparr>
   = Inr \<lparr> row_index = [1],
           frame = [(''northing'', FloatCol [2]), (''easting'', FloatCol [4]),
                    (''infected'', FloatCol [1])] \<rparr>"
  by (simp add: infected_df_exercise_def getitem_def getitem_mask_def select_mask_def
      reset_index_def)


section \<open>Properties of the clustering\<close>

subsection \<open>Neighbourhoods and the expansion\<close>

lemma assign_apply: "assign c js labels j = (if j \<in> set js then Assigned c else labels j)"
  unfolding assign_def by (induction js arbitrary: labels) auto

lemma neighbors_of_iff:
  "j \<in> neighbors_of points eps q \<longleftrightarrow>
     j < length points \<and> distance (points ! q) (points ! j) \<le> eps"
  by (auto simp: neighbors_of_def rangeQuery_def)

lemma distance_sym: "distance p q = distance q p"
  by (simp add: distance_def power2_commute)

lemma distance_self: "distance p p = 0"
  by (simp add: distance_def)

lemma neighbors_sym:
  "p < length points \<Longrightarrow> q \<in> neighbors_of points eps p \<Longrightarrow> p \<in> neighbors_of points eps q"
  by (simp add: neighbors_of_iff distance_sym)

lemma neighbors_self:
  "0 \<le> eps \<Longrightarrow> p < length points \<Longrightarrow> p \<in> neighbors_of points eps p"
  by (simp add: neighbors_of_iff distance_self)

lemma expand_change:
  "expand points eps minPts c queue labels j = labels j
   \<or> (absorbable (labels j) \<and> expand points eps minPts c queue labels j = Assigned c)"
proof (induction points eps minPts c queue labels rule: expand.induct)
  case (1 points eps minPts c labels)
  show ?case by simp
next
  case (2 points eps minPts c q queue labels)
  let ?nb = "rangeQuery points (points ! q) eps"
  let ?new = "filter (\<lambda>j. absorbable (labels j)) ?nb"
  show ?case
  proof (cases "minPts \<le> length ?nb")
    case True
    have IH: "expand points eps minPts c (queue @ ?new) (assign c ?new labels) j
                = assign c ?new labels j
              \<or> (absorbable (assign c ?new labels j)
                  \<and> expand points eps minPts c (queue @ ?new) (assign c ?new labels) j
                      = Assigned c)"
      using "2.IH"(1) [OF refl True refl] .
    have eq: "expand points eps minPts c (q # queue) labels
                = expand points eps minPts c (queue @ ?new) (assign c ?new labels)"
      using True by (simp add: Let_def)
    show ?thesis
    proof (cases "j \<in> set ?new")
      case True
      then have "absorbable (labels j)" "assign c ?new labels j = Assigned c"
        by (auto simp: assign_apply)
      with IH show ?thesis unfolding eq by auto
    next
      case False
      then have "assign c ?new labels j = labels j" by (auto simp: assign_apply)
      with IH show ?thesis unfolding eq by auto
    qed
  next
    case False
    have "expand points eps minPts c (q # queue) labels
            = expand points eps minPts c queue labels"
      using False by (simp add: Let_def)
    with "2.IH"(2) [OF refl False] show ?thesis by simp
  qed
qed


lemma expand_closed:
  "closed_under points eps minPts (set queue) labels \<Longrightarrow>
   closed_under points eps minPts {} (expand points eps minPts c queue labels)"
proof (induction points eps minPts c queue labels rule: expand.induct)
  case (1 points eps minPts c labels)
  then show ?case by simp
next
  case (2 points eps minPts c q queue labels)
  let ?nb = "rangeQuery points (points ! q) eps"
  let ?new = "filter (\<lambda>j. absorbable (labels j)) ?nb"
  let ?labels' = "assign c ?new labels"
  show ?case
  proof (cases "minPts \<le> length ?nb")
    case True
    have "closed_under points eps minPts (set (queue @ ?new)) ?labels'"
      unfolding closed_under_def
    proof (intro allI impI ballI)
      fix q' j
      assume a: "is_core points eps minPts q' \<and> \<not> absorbable (?labels' q')
                  \<and> q' \<notin> set (queue @ ?new)"
        and j: "j \<in> neighbors_of points eps q'"
      from a have notnew: "q' \<notin> set ?new" and notq: "q' \<notin> set queue" by simp_all
      from notnew have "?labels' q' = labels q'" by (auto simp: assign_apply)
      with a have asg: "\<not> absorbable (labels q')" by simp
      show "\<not> absorbable (?labels' j)"
      proof (cases "j \<in> set ?new")
        case True
        then show ?thesis by (auto simp: assign_apply)
      next
        case False
        then have lj: "?labels' j = labels j" by (auto simp: assign_apply)
        show ?thesis
        proof (cases "q' = q")
          case True
          with j have "j \<in> set ?nb" by (simp add: neighbors_of_def)
          with False have "\<not> absorbable (labels j)" by simp
          with lj show ?thesis by simp
        next
          case False
          with notq have "q' \<notin> set (q # queue)" by simp
          with "2.prems" a asg j have "\<not> absorbable (labels j)"
            unfolding closed_under_def by blast
          with lj show ?thesis by simp
        qed
      qed
    qed
    from "2.IH"(1) [OF refl True refl this] True show ?thesis
      by (simp add: Let_def)
  next
    case False
    then have nc: "\<not> is_core points eps minPts q" by (simp add: is_core_def)
    have "closed_under points eps minPts (set queue) labels"
      unfolding closed_under_def
    proof (intro allI impI ballI)
      fix q' j
      assume a: "is_core points eps minPts q' \<and> \<not> absorbable (labels q') \<and> q' \<notin> set queue"
        and j: "j \<in> neighbors_of points eps q'"
      from a nc have "q' \<noteq> q" by auto
      with a have "q' \<notin> set (q # queue)" by simp
      with "2.prems" a j show "\<not> absorbable (labels j)"
        unfolding closed_under_def by blast
    qed
    from "2.IH"(2) [OF refl False this] False show ?thesis
      by (simp add: Let_def)
  qed
qed


lemma not_stolen:
  assumes "closed_under points eps minPts {} labels"
    and "p < length points" and "labels p = Unvisited"
    and "is_core points eps minPts q" and "\<not> absorbable (labels q)"
  shows "q \<notin> neighbors_of points eps p"
proof
  assume "q \<in> neighbors_of points eps p"
  then have "p \<in> neighbors_of points eps q"
    using assms(2) by (rule neighbors_sym [rotated])
  with assms(1,4,5) have "\<not> absorbable (labels p)"
    unfolding closed_under_def by blast
  with assms(3) show False by simp
qed

lemma seed_labels:
  fixes points eps minPts c p labels
  defines "nb \<equiv> rangeQuery points (points ! p) eps"
  defines "L \<equiv> expand points eps minPts c nb (assign c nb labels)"
  shows "L j = labels j \<or> L j = Assigned c"
    and "j \<in> set nb \<Longrightarrow> L j = Assigned c"
    and "\<not> absorbable (labels j) \<Longrightarrow> j \<notin> set nb \<Longrightarrow> L j = labels j"
proof -
  have ch: "L j = assign c nb labels j
            \<or> (absorbable (assign c nb labels j) \<and> L j = Assigned c)"
    unfolding L_def by (rule expand_change)
  show "L j = labels j \<or> L j = Assigned c"
    using ch by (auto simp: assign_apply split: if_splits)
  show "L j = Assigned c" if "j \<in> set nb"
    using ch that by (auto simp: assign_apply)
  show "L j = labels j" if "\<not> absorbable (labels j)" "j \<notin> set nb"
    using ch that by (auto simp: assign_apply)
qed

lemma scan_step_skip:
  assumes "scan_inv points eps minPts i c labels" and "labels i \<noteq> Unvisited"
  shows "scan_inv points eps minPts (Suc i) c labels"
proof -
  have d: "\<forall>j < Suc i. labels j \<noteq> Unvisited"
    using assms by (auto simp: scan_inv_def less_Suc_eq)
  have e: "\<forall>x < c. \<exists>s < Suc i. is_core points eps minPts s \<and> labels s = Assigned x
            \<and> (\<forall>j. is_core points eps minPts j \<and> labels j = Assigned x \<longrightarrow> s \<le> j)
            \<and> (\<forall>y < x. \<exists>t < s. is_core points eps minPts t \<and> labels t = Assigned y)"
  proof (intro allI impI)
    fix x assume "x < c"
    with assms(1) obtain s where "s < i" "is_core points eps minPts s \<and> labels s = Assigned x
            \<and> (\<forall>j. is_core points eps minPts j \<and> labels j = Assigned x \<longrightarrow> s \<le> j)
            \<and> (\<forall>y < x. \<exists>t < s. is_core points eps minPts t \<and> labels t = Assigned y)"
      unfolding scan_inv_def by blast
    then show "\<exists>s < Suc i. is_core points eps minPts s \<and> labels s = Assigned x
            \<and> (\<forall>j. is_core points eps minPts j \<and> labels j = Assigned x \<longrightarrow> s \<le> j)
            \<and> (\<forall>y < x. \<exists>t < s. is_core points eps minPts t \<and> labels t = Assigned y)"
      by (intro exI [of _ s]) simp
  qed
  from assms(1) d e show ?thesis unfolding scan_inv_def by blast
qed

lemma scan_step_noise:
  assumes inv: "scan_inv points eps minPts i c labels"
    and un: "labels i = Unvisited"
    and nc: "\<not> is_core points eps minPts i"
  shows "scan_inv points eps minPts (Suc i) c (labels(i := Noise))"
proof -
  let ?L = "labels(i := Noise)"
  have keep: "?L j = Assigned x \<longleftrightarrow> labels j = Assigned x" for j x
    using un by auto
  have a: "closed_under points eps minPts {} ?L"
    unfolding closed_under_def
  proof (intro allI impI ballI)
    fix q j
    assume q: "is_core points eps minPts q \<and> \<not> absorbable (?L q) \<and> q \<notin> {}"
      and j: "j \<in> neighbors_of points eps q"
    from q have "q \<noteq> i" by auto
    with q have "\<not> absorbable (labels q)" by simp
    with inv q j have nj: "\<not> absorbable (labels j)"
      unfolding scan_inv_def closed_under_def by blast
    with un have "j \<noteq> i" by auto
    with nj show "\<not> absorbable (?L j)" by simp
  qed
  have b: "\<forall>j x. ?L j = Assigned x \<longrightarrow> x < c"
    using inv unfolding keep scan_inv_def by blast
  have c: "\<forall>j. ?L j = Noise \<longrightarrow> \<not> is_core points eps minPts j"
    using inv nc by (auto simp: scan_inv_def)
  have d: "\<forall>j < Suc i. ?L j \<noteq> Unvisited"
    using inv by (auto simp: scan_inv_def less_Suc_eq)
  have e: "\<forall>x < c. \<exists>s < Suc i. is_core points eps minPts s \<and> ?L s = Assigned x
            \<and> (\<forall>j. is_core points eps minPts j \<and> ?L j = Assigned x \<longrightarrow> s \<le> j)
            \<and> (\<forall>y < x. \<exists>t < s. is_core points eps minPts t \<and> ?L t = Assigned y)"
    unfolding keep
  proof (intro allI impI)
    fix x assume "x < c"
    with inv obtain s where "s < i" "is_core points eps minPts s \<and> labels s = Assigned x
            \<and> (\<forall>j. is_core points eps minPts j \<and> labels j = Assigned x \<longrightarrow> s \<le> j)
            \<and> (\<forall>y < x. \<exists>t < s. is_core points eps minPts t \<and> labels t = Assigned y)"
      unfolding scan_inv_def by blast
    then show "\<exists>s < Suc i. is_core points eps minPts s \<and> labels s = Assigned x
            \<and> (\<forall>j. is_core points eps minPts j \<and> labels j = Assigned x \<longrightarrow> s \<le> j)
            \<and> (\<forall>y < x. \<exists>t < s. is_core points eps minPts t \<and> labels t = Assigned y)"
      by (intro exI [of _ s]) simp
  qed
  from a b c d e show ?thesis unfolding scan_inv_def by blast
qed


lemma scan_step_seed:
  fixes points eps minPts c i labels
  defines "nb \<equiv> rangeQuery points (points ! i) eps"
  defines "L \<equiv> expand points eps minPts c nb (assign c nb labels)"
  assumes inv: "scan_inv points eps minPts i c labels"
    and eps: "0 \<le> eps" and i: "i < length points"
    and un: "labels i = Unvisited"
    and core: "is_core points eps minPts i"
  shows "scan_inv points eps minPts (Suc i) (Suc c) L"
proof -
  have cl: "closed_under points eps minPts {} labels"
    and ids: "\<And>j x. labels j = Assigned x \<Longrightarrow> x < c"
    and noise: "\<And>j. labels j = Noise \<Longrightarrow> \<not> is_core points eps minPts j"
    and seen: "\<And>j. j < i \<Longrightarrow> labels j \<noteq> Unvisited"
    using inv unfolding scan_inv_def by blast+
  have nb_set: "set nb = neighbors_of points eps i"
    by (simp add: nb_def neighbors_of_def)
  have L1: "L j = labels j \<or> L j = Assigned c" for j
    unfolding L_def nb_def by (rule seed_labels(1))
  have L2: "L j = Assigned c" if "j \<in> set nb" for j
    using that unfolding L_def nb_def by (rule seed_labels(2))
  have L3: "L j = labels j" if "\<not> absorbable (labels j)" "j \<notin> set nb" for j
    using that unfolding L_def nb_def by (rule seed_labels(3))
  have keep: "L q = labels q"
    if "is_core points eps minPts q" "\<not> absorbable (labels q)" for q
  proof -
    have "q \<notin> neighbors_of points eps i"
      by (rule not_stolen [OF cl i un that])
    with that(2) show ?thesis by (intro L3) (simp_all add: nb_set)
  qed
  have self: "i \<in> set nb"
    unfolding nb_set by (rule neighbors_self [OF eps i])
  have a: "closed_under points eps minPts {} L"
    unfolding L_def
  proof (rule expand_closed)
    show "closed_under points eps minPts (set nb) (assign c nb labels)"
      unfolding closed_under_def
    proof (intro allI impI ballI)
      fix q j
      assume q: "is_core points eps minPts q \<and> \<not> absorbable (assign c nb labels q)
                   \<and> q \<notin> set nb"
        and j: "j \<in> neighbors_of points eps q"
      from q have "\<not> absorbable (labels q)" by (auto simp: assign_apply)
      with cl q j have "\<not> absorbable (labels j)"
        unfolding closed_under_def by blast
      then show "\<not> absorbable (assign c nb labels j)"
        by (simp add: assign_apply)
    qed
  qed
  have b: "\<forall>j x. L j = Assigned x \<longrightarrow> x < Suc c"
  proof (intro allI impI)
    fix j x assume "L j = Assigned x"
    with L1 [of j] have "labels j = Assigned x \<or> x = c" by auto
    then show "x < Suc c" using ids by (auto simp: less_Suc_eq)
  qed
  have c: "\<forall>j. L j = Noise \<longrightarrow> \<not> is_core points eps minPts j"
  proof (intro allI impI)
    fix j assume "L j = Noise"
    with L1 [of j] have "labels j = Noise" by auto
    then show "\<not> is_core points eps minPts j" by (rule noise)
  qed
  have d: "\<forall>j < Suc i. L j \<noteq> Unvisited"
  proof (intro allI impI)
    fix j assume "j < Suc i"
    then consider "j < i" | "j = i" by (auto simp: less_Suc_eq)
    then show "L j \<noteq> Unvisited"
    proof cases
      case 1
      with seen have "labels j \<noteq> Unvisited" by simp
      with L1 [of j] show ?thesis by auto
    next
      case 2
      with L2 [OF self] show ?thesis by simp
    qed
  qed
  have old: "\<exists>s < i. is_core points eps minPts s \<and> labels s = Assigned x
            \<and> (\<forall>j. is_core points eps minPts j \<and> labels j = Assigned x \<longrightarrow> s \<le> j)
            \<and> (\<forall>y < x. \<exists>t < s. is_core points eps minPts t \<and> labels t = Assigned y)"
    if "x < c" for x
    using inv that unfolding scan_inv_def by blast
  have seed_kept: "\<exists>t < i. is_core points eps minPts t \<and> L t = Assigned y" if "y < c" for y
  proof -
    from old [OF that] obtain t where t: "t < i" "is_core points eps minPts t"
      "labels t = Assigned y" by blast
    then have "L t = labels t" by (intro keep) simp_all
    with t show ?thesis by auto
  qed
  have e: "\<forall>x < Suc c. \<exists>s < Suc i. is_core points eps minPts s \<and> L s = Assigned x
            \<and> (\<forall>j. is_core points eps minPts j \<and> L j = Assigned x \<longrightarrow> s \<le> j)
            \<and> (\<forall>y < x. \<exists>t < s. is_core points eps minPts t \<and> L t = Assigned y)"
  proof (intro allI impI)
    fix x assume "x < Suc c"
    then consider "x < c" | "x = c" by (auto simp: less_Suc_eq)
    then show "\<exists>s < Suc i. is_core points eps minPts s \<and> L s = Assigned x
            \<and> (\<forall>j. is_core points eps minPts j \<and> L j = Assigned x \<longrightarrow> s \<le> j)
            \<and> (\<forall>y < x. \<exists>t < s. is_core points eps minPts t \<and> L t = Assigned y)"
    proof cases
      case 1
      from old [OF 1] obtain s where s: "s < i" "is_core points eps minPts s"
        "labels s = Assigned x"
        and smin: "\<And>j. is_core points eps minPts j \<Longrightarrow> labels j = Assigned x \<Longrightarrow> s \<le> j"
        and sord: "\<And>y. y < x \<Longrightarrow> \<exists>t < s. is_core points eps minPts t \<and> labels t = Assigned y"
        by blast
      have Ls: "L s = Assigned x" using keep [of s] s by simp
      have m: "s \<le> j" if "is_core points eps minPts j" "L j = Assigned x" for j
      proof -
        from L1 [of j] that(2) 1 have "labels j = Assigned x" by auto
        with that(1) show ?thesis by (rule smin)
      qed
      have o: "\<exists>t < s. is_core points eps minPts t \<and> L t = Assigned y" if "y < x" for y
      proof -
        from sord [OF that] obtain t where t: "t < s" "is_core points eps minPts t"
          "labels t = Assigned y" by blast
        then have "L t = labels t" by (intro keep) simp_all
        with t show ?thesis by auto
      qed
      from s(1,2) Ls m o show ?thesis by (intro exI [of _ s]) auto
    next
      case 2
      have Li: "L i = Assigned c" by (rule L2 [OF self])
      have m: "i \<le> j" if "is_core points eps minPts j" "L j = Assigned c" for j
      proof (rule ccontr)
        assume "\<not> i \<le> j"
        then have ji: "j < i" by simp
        then have nu: "labels j \<noteq> Unvisited" by (rule seen)
        have "labels j \<noteq> Noise" using noise that(1) by blast
        with nu have na: "\<not> absorbable (labels j)" by (cases "labels j") simp_all
        then obtain x' where x': "labels j = Assigned x'" by (cases "labels j") simp_all
        have "L j = labels j" by (rule keep [OF that(1) na])
        with that(2) x' have "x' = c" by simp
        with ids [OF x'] show False by simp
      qed
      from core Li m seed_kept show ?thesis
        unfolding 2 by (intro exI [of _ i]) auto
    qed
  qed
  from a b c d e show ?thesis unfolding scan_inv_def by blast
qed


lemma scan_upt:
  assumes eps: "0 \<le> eps"
  shows "i \<le> length points \<Longrightarrow> scan_inv points eps minPts i c labels \<Longrightarrow>
     \<exists>k. scan_inv points eps minPts (length points) k
           (scan points eps minPts [i..<length points] c labels)"
proof (induction "length points - i" arbitrary: i c labels)
  case 0
  then have "i = length points" by simp
  with "0.prems"(2) show ?case by auto
next
  case (Suc d)
  then have i: "i < length points" and d: "d = length points - Suc i"
    and le: "Suc i \<le> length points" by simp_all
  have upt: "[i..<length points] = i # [Suc i..<length points]"
    using i by (rule upt_conv_Cons)
  let ?nb = "rangeQuery points (points ! i) eps"
  show ?case
  proof (cases "labels i = Unvisited")
    case False
    then have "scan_inv points eps minPts (Suc i) c labels"
      by (intro scan_step_skip Suc.prems(2))
    from Suc.hyps(1) [OF d le this] False show ?thesis
      unfolding upt by simp
  next
    case True
    show ?thesis
    proof (cases "length ?nb < minPts")
      case less: True
      then have "\<not> is_core points eps minPts i" by (simp add: is_core_def)
      then have "scan_inv points eps minPts (Suc i) c (labels(i := Noise))"
        by (intro scan_step_noise Suc.prems(2) True)
      from Suc.hyps(1) [OF d le this] True less show ?thesis
        unfolding upt by (simp add: Let_def)
    next
      case False
      then have "is_core points eps minPts i" by (simp add: is_core_def)
      then have "scan_inv points eps minPts (Suc i) (Suc c)
                   (expand points eps minPts c ?nb (assign c ?nb labels))"
        by (intro scan_step_seed Suc.prems(2) eps i True)
      from Suc.hyps(1) [OF d le this] True False show ?thesis
        unfolding upt by (simp add: Let_def)
    qed
  qed
qed

lemma scan_inv_initial: "scan_inv points eps minPts 0 0 (\<lambda>j. Unvisited)"
  by (simp add: scan_inv_def closed_under_def)

lemma scan_inv_final:
  assumes "0 \<le> eps"
  shows "\<exists>k. scan_inv points eps minPts (length points) k
            (scan points eps minPts [0..<length points] 0 (\<lambda>j. Unvisited))"
  by (rule scan_upt [OF assms _ scan_inv_initial]) simp

lemma cluster_labels_nth:
  "i < length points \<Longrightarrow>
     cluster_labels points eps minPts ! i
       = scan points eps minPts [0..<length points] 0 (\<lambda>j. Unvisited) i"
  by (simp add: cluster_labels_def)

lemma clusterId_ge: "- 1 \<le> clusterId l"
  by (cases l) simp_all

lemma clusterId_noise: "l \<noteq> Unvisited \<Longrightarrow> clusterId l = - 1 \<longleftrightarrow> l = Noise"
  by (cases l) simp_all

lemma clusterId_nat: "clusterId l = int x \<longleftrightarrow> l = Assigned x"
  by (cases l) simp_all

lemma rangeQuery_squared:
  assumes "0 \<le> eps"
  shows "rangeQuery points p eps
     = filter (\<lambda>j. (fst p - fst (points ! j))\<^sup>2 + (snd p - snd (points ! j))\<^sup>2 \<le> eps\<^sup>2)
         [0..<length points]"
proof -
  have "sqrt a \<le> eps \<longleftrightarrow> a \<le> eps\<^sup>2" for a
    using assms by (auto intro: real_le_lsqrt dest: sqrt_le_D)
  then show ?thesis by (simp add: rangeQuery_def distance_def)
qed

text \<open>
  Three runs of the model: a pair and an outlier; two groups and an outlier; and two
  clusters with a border point between them, which ends in the cluster found last, as
  all neighbours of a cluster's first core point are added to it.
\<close>

lemma cluster_example: "cluster [(0, 0), (1, 0), (10, 0)] 2 2 = Inr [0, 0, - 1]"
  by (simp add: cluster_def cluster_labels_def rangeQuery_squared upt_rec Let_def
      assign_def numeral_2_eq_2 numeral_3_eq_3)


lemma cluster_two_groups:
  "cluster [(0, 0), (1, 0), (2, 0), (10, 0), (11, 0), (12, 0), (50, 0)] (3 / 2) 3
     = Inr [0, 0, 0, 1, 1, 1, - 1]"
  by (simp add: cluster_def cluster_labels_def rangeQuery_squared upt_rec Let_def
      assign_def numeral_2_eq_2 numeral_3_eq_3 power2_eq_square)

lemma cluster_shared_border_point:
  "cluster [(0, 0), (- 1, 0), (0, 1), (1, 0), (2, 0), (3, 0), (2, 1)] 1 4
     = Inr [0, 0, 0, 1, 1, 1, 1]"
  by (simp add: cluster_def cluster_labels_def rangeQuery_squared upt_rec Let_def
      assign_def numeral_2_eq_2 numeral_3_eq_3 power2_eq_square)

subsection \<open>Cluster ids\<close>

text \<open>What the invariant says about the ids of a run that returned.\<close>

lemma returned_ids_dense:
  assumes "cluster points eps minPts = Inr ids"
  shows "length ids = length points
     \<and> (\<forall>i < length points.
           cluster_labels points eps (nat minPts) ! i \<noteq> Unvisited
           \<and> ids ! i = clusterId (cluster_labels points eps (nat minPts) ! i)
           \<and> (ids ! i = - 1 \<longleftrightarrow> cluster_labels points eps (nat minPts) ! i = Noise)
           \<and> - 1 \<le> ids ! i)
     \<and> (\<exists>k. {c \<in> set ids. 0 \<le> c} = int ` {..<k}
           \<and> (\<forall>x < k. \<exists>s < length points.
                  is_core points eps (nat minPts) s \<and> ids ! s = int x
                  \<and> (\<forall>j < length points.
                        is_core points eps (nat minPts) j \<and> ids ! j = int x \<longrightarrow> s \<le> j)
                  \<and> (\<forall>y < x. \<exists>t < s.
                        is_core points eps (nat minPts) t \<and> ids ! t = int y)))"
proof -
  let ?n = "length points" and ?m = "nat minPts"
  let ?L = "scan points eps ?m [0..<?n] 0 (\<lambda>j. Unvisited)"
  from assms have eps: "0 \<le> eps"
    and ids: "ids = map clusterId (cluster_labels points eps ?m)"
    by (auto simp: cluster_def split: if_splits)
  have len: "length ids = ?n" by (simp add: ids cluster_labels_def)
  have nth: "ids ! i = clusterId (?L i)" if "i < ?n" for i
    using that by (simp add: ids cluster_labels_def)
  from scan_inv_final [OF eps, of points ?m]
  obtain k where inv: "scan_inv points eps ?m ?n k ?L" ..
  have bound: "\<And>j x. ?L j = Assigned x \<Longrightarrow> x < k"
    and seen: "\<And>j. j < ?n \<Longrightarrow> ?L j \<noteq> Unvisited"
    and seeds: "\<And>x. x < k \<Longrightarrow> \<exists>s < ?n. is_core points eps ?m s \<and> ?L s = Assigned x
            \<and> (\<forall>j. is_core points eps ?m j \<and> ?L j = Assigned x \<longrightarrow> s \<le> j)
            \<and> (\<forall>y < x. \<exists>t < s. is_core points eps ?m t \<and> ?L t = Assigned y)"
    using inv unfolding scan_inv_def by blast+
  have per_point: "\<forall>i < ?n.
           cluster_labels points eps ?m ! i \<noteq> Unvisited
           \<and> ids ! i = clusterId (cluster_labels points eps ?m ! i)
           \<and> (ids ! i = - 1 \<longleftrightarrow> cluster_labels points eps ?m ! i = Noise)
           \<and> - 1 \<le> ids ! i"
    using seen nth by (simp add: cluster_labels_nth clusterId_ge clusterId_noise)
  have dense: "{c \<in> set ids. 0 \<le> c} = int ` {..<k}"
  proof (intro set_eqI iffI)
    fix c assume "c \<in> {c \<in> set ids. 0 \<le> c}"
    then obtain i where i: "i < ?n" "ids ! i = c" "0 \<le> c"
      by (auto simp: in_set_conv_nth len)
    then have "clusterId (?L i) = c" by (simp add: nth)
    with i(3) obtain x where "?L i = Assigned x" "c = int x"
      by (cases "?L i") auto
    with bound show "c \<in> int ` {..<k}" by auto
  next
    fix c assume "c \<in> int ` {..<k}"
    then obtain x where x: "x < k" "c = int x" by auto
    from seeds [OF x(1)] obtain s where "s < ?n" "?L s = Assigned x" by blast
    then have "ids ! s = c" by (simp add: nth x(2))
    with \<open>s < ?n\<close> show "c \<in> {c \<in> set ids. 0 \<le> c}"
      using x(2) by (auto simp: in_set_conv_nth len)
  qed
  have order: "\<forall>x < k. \<exists>s < ?n.
                  is_core points eps ?m s \<and> ids ! s = int x
                  \<and> (\<forall>j < ?n. is_core points eps ?m j \<and> ids ! j = int x \<longrightarrow> s \<le> j)
                  \<and> (\<forall>y < x. \<exists>t < s. is_core points eps ?m t \<and> ids ! t = int y)"
  proof (intro allI impI)
    fix x assume "x < k"
    from seeds [OF this] obtain s where s: "s < ?n" "is_core points eps ?m s"
      "?L s = Assigned x"
      and smin: "\<And>j. is_core points eps ?m j \<Longrightarrow> ?L j = Assigned x \<Longrightarrow> s \<le> j"
      and sord: "\<And>y. y < x \<Longrightarrow> \<exists>t < s. is_core points eps ?m t \<and> ?L t = Assigned y"
      by blast
    have 1: "ids ! s = int x" using s by (simp add: nth)
    have 2: "\<forall>j < ?n. is_core points eps ?m j \<and> ids ! j = int x \<longrightarrow> s \<le> j"
      using smin by (auto simp: nth clusterId_nat)
    have 3: "\<forall>y < x. \<exists>t < s. is_core points eps ?m t \<and> ids ! t = int y"
    proof (intro allI impI)
      fix y assume "y < x"
      from sord [OF this] obtain t where "t < s" "is_core points eps ?m t" "?L t = Assigned y"
        by blast
      with s(1) show "\<exists>t < s. is_core points eps ?m t \<and> ids ! t = int y"
        by (intro exI [of _ t]) (simp add: nth)
    qed
    from s(1,2) 1 2 3
    show "\<exists>s < ?n. is_core points eps ?m s \<and> ids ! s = int x
                  \<and> (\<forall>j < ?n. is_core points eps ?m j \<and> ids ! j = int x \<longrightarrow> s \<le> j)
                  \<and> (\<forall>y < x. \<exists>t < s. is_core points eps ?m t \<and> ids ! t = int y)"
      by (intro exI [of _ s] conjI)
  qed
  from len per_point dense order show ?thesis by blast
qed

text \<open>
  C6. For every point set, every \<open>minPts \<ge> 1\<close> and every \<open>eps \<ge> 0\<close> the clustering
  returns one id per point; no point is left unvisited; a point's id is \<open>-1\<close> exactly
  when the point is noise, and is a natural number, its cluster's id, otherwise. The ids
  in use are exactly \<open>0, ..., k-1\<close> for
  some \<open>k\<close>, in discovery order: every cluster has a first core point in input order,
  and the first core points of the clusters \<open>0, 1, ..., k-1\<close> come in this order.
\<close>

theorem cluster_ids_dense:
  assumes "0 < minPts" and "0 \<le> eps"
  shows "\<exists>ids. cluster points eps minPts = Inr ids
     \<and> length ids = length points
     \<and> (\<forall>i < length points.
           cluster_labels points eps (nat minPts) ! i \<noteq> Unvisited
           \<and> ids ! i = clusterId (cluster_labels points eps (nat minPts) ! i)
           \<and> (ids ! i = - 1 \<longleftrightarrow> cluster_labels points eps (nat minPts) ! i = Noise)
           \<and> - 1 \<le> ids ! i)
     \<and> (\<exists>k. {c \<in> set ids. 0 \<le> c} = int ` {..<k}
           \<and> (\<forall>x < k. \<exists>s < length points.
                  is_core points eps (nat minPts) s \<and> ids ! s = int x
                  \<and> (\<forall>j < length points.
                        is_core points eps (nat minPts) j \<and> ids ! j = int x \<longrightarrow> s \<le> j)
                  \<and> (\<forall>y < x. \<exists>t < s.
                        is_core points eps (nat minPts) t \<and> ids ! t = int y)))"
proof -
  from assms obtain ids where ids: "cluster points eps minPts = Inr ids"
    by (simp add: cluster_def)
  from ids returned_ids_dense [OF ids] show ?thesis
    by (intro exI [of _ ids] conjI) blast+
qed

theorem cluster_ids_dense_witness:
  "(0::int) < 2 \<and> (0::real) \<le> 2
   \<and> cluster [(0, 0), (1, 0), (10, 0)] 2 2 = Inr [0, 0, - 1]
   \<and> (\<exists>ids. cluster [(0, 0), (1, 0), (10, 0)] 2 2 = Inr ids
         \<and> length ids = length [(0, 0), (1, 0), (10, 0) :: point]
         \<and> (\<exists>k. {c \<in> set ids. 0 \<le> c} = int ` {..<k}))"
proof -
  let ?P = "[(0, 0), (1, 0), (10, 0)] :: point list"
  have h1: "(0::int) < 2" and h2: "(0::real) \<le> 2" by simp_all
  from cluster_ids_dense [OF h1 h2, of ?P]
  obtain ids where "cluster ?P 2 2 = Inr ids" "length ids = length ?P"
    "\<exists>k. {c \<in> set ids. 0 \<le> c} = int ` {..<k}"
    by blast
  then have "\<exists>ids. cluster ?P 2 2 = Inr ids \<and> length ids = length ?P
         \<and> (\<exists>k. {c \<in> set ids. 0 \<le> c} = int ` {..<k})"
    by (intro exI [of _ ids] conjI)
  with h1 h2 cluster_example show ?thesis by (intro conjI)
qed

subsection \<open>Isolated points\<close>

lemma rangeQuery_lonely:
  assumes far: "\<forall>i < length points. \<forall>j < length points.
                  i \<noteq> j \<longrightarrow> eps < distance (points ! i) (points ! j)"
    and p: "p < length points"
  shows "length (rangeQuery points (points ! p) eps) \<le> 1"
proof -
  let ?nb = "rangeQuery points (points ! p) eps"
  have "set ?nb \<subseteq> {p}"
  proof
    fix j assume "j \<in> set ?nb"
    then have j: "j < length points" "distance (points ! p) (points ! j) \<le> eps"
      by (simp_all add: rangeQuery_def)
    with far p have "j = p" by (metis not_less)
    then show "j \<in> {p}" by simp
  qed
  then have "card (set ?nb) \<le> card {p}" by (intro card_mono) simp_all
  moreover have "distinct ?nb" by (simp add: rangeQuery_def)
  ultimately show ?thesis by (simp add: distinct_card)
qed

lemma scan_all_noise:
  assumes minPts: "1 < minPts"
    and far: "\<forall>i < length points. \<forall>j < length points.
                  i \<noteq> j \<longrightarrow> eps < distance (points ! i) (points ! j)"
  shows "set ps \<subseteq> {..<length points} \<Longrightarrow>
     scan points eps minPts ps c labels
       = (\<lambda>j. if j \<in> set ps \<and> labels j = Unvisited then Noise else labels j)"
proof (induction ps arbitrary: labels)
  case Nil
  show ?case by simp
next
  case (Cons p ps)
  then have p: "p < length points" and ps: "set ps \<subseteq> {..<length points}" by simp_all
  have few: "length (rangeQuery points (points ! p) eps) < minPts"
    using rangeQuery_lonely [OF far p] minPts by simp
  show ?case
  proof (cases "labels p = Unvisited")
    case True
    then have "scan points eps minPts (p # ps) c labels
                 = scan points eps minPts ps c (labels(p := Noise))"
      using few by (simp add: Let_def)
    also have "\<dots> = (\<lambda>j. if j \<in> set ps \<and> (labels(p := Noise)) j = Unvisited then Noise
                          else (labels(p := Noise)) j)"
      by (rule Cons.IH [OF ps])
    also have "\<dots> = (\<lambda>j. if j \<in> set (p # ps) \<and> labels j = Unvisited then Noise else labels j)"
      using True by (auto simp: fun_eq_iff)
    finally show ?thesis .
  next
    case False
    then have "scan points eps minPts (p # ps) c labels = scan points eps minPts ps c labels"
      by simp
    also have "\<dots> = (\<lambda>j. if j \<in> set ps \<and> labels j = Unvisited then Noise else labels j)"
      by (rule Cons.IH [OF ps])
    also have "\<dots> = (\<lambda>j. if j \<in> set (p # ps) \<and> labels j = Unvisited then Noise else labels j)"
      using False by (auto simp: fun_eq_iff)
    finally show ?thesis .
  qed
qed

text \<open>
  C7. When every two distinct points are further apart than \<open>eps\<close> and \<open>minPts > 1\<close>,
  the clustering labels every point \<open>-1\<close>; the only other outcome is the configuration
  error for a negative \<open>eps\<close>.
\<close>

theorem isolated_points_are_noise:
  assumes "1 < minPts"
    and "\<forall>i < length points. \<forall>j < length points.
            i \<noteq> j \<longrightarrow> eps < distance (points ! i) (points ! j)"
  shows "cluster points eps minPts
           = (if eps < 0 then Inl BadEps else Inr (replicate (length points) (- 1)))"
proof -
  have m: "1 < nat minPts" using assms(1) by simp
  have "scan points eps (nat minPts) [0..<length points] 0 (\<lambda>j. Unvisited)
          = (\<lambda>j. if j \<in> set [0..<length points] \<and> Unvisited = Unvisited then Noise
                  else Unvisited)"
    by (rule scan_all_noise [OF m assms(2)]) auto
  then have "cluster_labels points eps (nat minPts) = map (\<lambda>j. Noise) [0..<length points]"
    by (simp add: cluster_labels_def)
  then have "map clusterId (cluster_labels points eps (nat minPts))
               = replicate (length points) (- 1)"
    by (simp add: map_replicate_const)
  with assms(1) show ?thesis by (simp add: cluster_def)
qed

theorem isolated_points_are_noise_witness:
  "(1::int) < 2
   \<and> 2 < distance ([(0, 0), (10, 0)] ! 0) ([(0, 0), (10, 0)] ! 1)
   \<and> 2 < distance ([(0, 0), (10, 0)] ! 1) ([(0, 0), (10, 0)] ! 0)
   \<and> cluster [(0, 0), (10, 0)] 2 2 = Inr [- 1, - 1]"
proof -
  let ?P = "[(0, 0), (10, 0)] :: point list"
  have h1: "(1::int) < 2" by simp
  have d1: "2 < distance (?P ! 0) (?P ! 1)"
    by (simp add: distance_def real_less_rsqrt)
  have d2: "2 < distance (?P ! 1) (?P ! 0)"
    by (simp add: distance_def real_less_rsqrt)
  have far: "\<forall>i < length ?P. \<forall>j < length ?P. i \<noteq> j \<longrightarrow> 2 < distance (?P ! i) (?P ! j)"
  proof (intro allI impI)
    fix i j assume "i < length ?P" "j < length ?P" "i \<noteq> j"
    then have "(i = 0 \<and> j = 1) \<or> (i = 1 \<and> j = 0)" by auto
    with d1 d2 show "2 < distance (?P ! i) (?P ! j)" by auto
  qed
  have "cluster ?P 2 2 = Inr [- 1, - 1]"
    using isolated_points_are_noise [OF h1 far] by (simp add: numeral_2_eq_2)
  with h1 d1 d2 show ?thesis by (intro conjI)
qed


end
